theory Spec2Isabelle
  imports Main "HOL-Library.Signed_Division"
begin

section \<open>Errors and undefined behaviour\<close>

text \<open>
  The header throws exactly one exception type, \<open>UndefinedIteratorException\<close>
  (\<open>easy_iterator.h\<close>, lines 83-85). Everything else that can go wrong is undefined
  behaviour of C++: reading through an empty \<open>std::optional\<close> (\<open>*v\<close>), signed
  overflow of \<open>int\<close>, \<open>%\<close> by zero, and moving or reading a container iterator
  beyond the end of its container. The model makes each of them a value, so that no
  HOL default stands in silently for it.
\<close>

datatype undefined_behaviour =
  EmptyOptionalAccess | SignedOverflow | DivisionByZero | PastTheEnd

datatype error = UndefinedIteratorException | Undefined undefined_behaviour

section \<open>The scalar type\<close>

text \<open>
  \<open>range\<close>, \<open>RangeIterator\<close> and \<open>increment::ByValue\<close> are templates over the scalar
  type \<open>T\<close>. The model instantiates \<open>T\<close> with \<open>int\<close>, the type deduced for
  \<open>range(2,10,3)\<close> and for \<open>RangeIterator(0)\<close> in \<open>enumerate\<close>, taken as 32-bit two's
  complement. A scalar is an \<open>int\<close> of HOL that satisfies \<open>is_int\<close>; an arithmetic result
  outside that interval is signed overflow. \<open>%\<close> truncates towards zero (\<open>smod\<close>), and is
  undefined for a zero divisor and when the quotient is not representable.
\<close>

definition INT_MIN :: int where
  "INT_MIN = - 2147483648"

definition INT_MAX :: int where
  "INT_MAX = 2147483647"

definition is_int :: "int \<Rightarrow> bool" where
  "is_int x \<longleftrightarrow> INT_MIN \<le> x \<and> x \<le> INT_MAX"

definition int_add :: "int \<Rightarrow> int \<Rightarrow> error + int" where
  "int_add a b = (if is_int (a + b) then Inr (a + b) else Inl (Undefined SignedOverflow))"

definition int_sub :: "int \<Rightarrow> int \<Rightarrow> error + int" where
  "int_sub a b = (if is_int (a - b) then Inr (a - b) else Inl (Undefined SignedOverflow))"

definition int_rem :: "int \<Rightarrow> int \<Rightarrow> error + int" where
  "int_rem a b =
     (if b = 0 then Inl (Undefined DivisionByZero)
      else if \<not> is_int (a sdiv b) then Inl (Undefined SignedOverflow)
      else Inr (a smod b))"

section \<open>Strategy functors\<close>

text \<open>
  \<open>compare::ByAddress\<close>, \<open>dereference::ByValueDereference\<close>, \<open>IncrementPtrIterator\<close> and
  \<open>reverse\<close> work on addresses and on the reverse iterators of a container. Nothing below
  depends on them, and they are left out.
\<close>

subsection \<open>namespace compare\<close>

definition compare_ByValue :: "'t \<Rightarrow> 't \<Rightarrow> bool" where
  "compare_ByValue a b \<longleftrightarrow> a = b"

definition compare_Never :: "'t \<Rightarrow> 't \<Rightarrow> bool" where
  "compare_Never a b \<longleftrightarrow> False"

text \<open>
  A \<open>std::tuple<Args...>\<close> of cursors is a list of cursors; the element types
  \<open>Args...\<close> are embedded into one cursor type \<open>'c\<close> (a sum type when they differ), and
  the \<open>==\<close> of that type is the parameter \<open>eq\<close>. \<open>std::get<sizeof...(Args)-1>\<close> is the
  last element. For the empty tuple the source is ill-formed (there is no element
  \<open>-1\<close>), so no such instance exists; the model answers \<open>False\<close> there.
\<close>

definition compare_ByLastTupleElementMatch ::
  "('c \<Rightarrow> 'c \<Rightarrow> bool) \<Rightarrow> 'c list \<Rightarrow> 'c list \<Rightarrow> bool" where
  "compare_ByLastTupleElementMatch eq a b =
     (case (rev a, rev b) of (x # _, y # _) \<Rightarrow> eq x y | _ \<Rightarrow> False)"

subsection \<open>namespace increment\<close>

text \<open>
  \<open>increment::ByValue<A>\<close> executes \<open>*v = *v + A\<close>: it reads through the optional
  without testing it, which is undefined when the optional is empty.
\<close>

definition increment_ByValue :: "int \<Rightarrow> int option \<Rightarrow> error + int option" where
  "increment_ByValue A v =
     (case v of
        None \<Rightarrow> Inl (Undefined EmptyOptionalAccess)
      | Some x \<Rightarrow> (case int_add x A of Inl e \<Rightarrow> Inl e | Inr y \<Rightarrow> Inr (Some y)))"

text \<open>
  \<open>dummy(++std::get<Idx>(v)...)\<close> increments every element of the tuple once. The
  order in which the arguments of \<open>dummy\<close> are evaluated is unspecified; the model goes
  from left to right and reports the first failure.
\<close>

fun tuple_each :: "('c \<Rightarrow> error + 'd) \<Rightarrow> 'c list \<Rightarrow> error + 'd list" where
  "tuple_each f [] = Inr []"
| "tuple_each f (c # cs) =
     (case f c of
        Inl e \<Rightarrow> Inl e
      | Inr d \<Rightarrow> (case tuple_each f cs of Inl e \<Rightarrow> Inl e | Inr ds \<Rightarrow> Inr (d # ds)))"

definition increment_ByTupleIncrement ::
  "('c \<Rightarrow> error + 'c) \<Rightarrow> 'c list option \<Rightarrow> error + 'c list option" where
  "increment_ByTupleIncrement incr v =
     (case v of
        None \<Rightarrow> Inl (Undefined EmptyOptionalAccess)
      | Some cs \<Rightarrow> (case tuple_each incr cs of Inl e \<Rightarrow> Inl e | Inr cs' \<Rightarrow> Inr (Some cs')))"

subsection \<open>namespace dereference\<close>

text \<open>
  A dereferencer is called as \<open>dereferencer(*current)\<close> and takes its argument as \<open>T &\<close>,
  a reference to the value held by the cursor (\<open>current\<close> is \<open>mutable\<close>, so this also holds
  inside the \<open>const\<close> member \<open>operator*\<close>). What it writes through the reference stays in
  the cursor. A dereferencer is therefore a function from the held value to its result
  and the held value as the call leaves it.

  \<open>ByValue\<close> returns the reference itself and writes nothing. \<open>ByTupleDereference\<close>
  applies \<open>*\<close> to every element of the tuple; \<open>star\<close> is the \<open>*\<close> of the elements' type. The
  order of the calls is unspecified; the model reports the first failure from the left and
  gives the tuple with every element as its \<open>*\<close> leaves it.
\<close>

definition dereference_ByValue :: "'t \<Rightarrow> (error + 't) \<times> 't" where
  "dereference_ByValue v = (Inr v, v)"

definition dereference_ByTupleDereference ::
  "('c \<Rightarrow> (error + 'v) \<times> 'c) \<Rightarrow> 'c list \<Rightarrow> (error + 'v list) \<times> 'c list" where
  "dereference_ByTupleDereference star v =
     (tuple_each (\<lambda>c. fst (star c)) v, map (\<lambda>c. snd (star c)) v)"

section \<open>class Iterator\<close>

text \<open>
  The fields of \<open>Iterator<T,D,C>\<close>. The functors \<open>D\<close> and \<open>C\<close> are function values; a
  dereferencer may raise (the tuple dereferencer dereferences other cursors), so its
  result is a sum.
\<close>

record ('t, 'u) Iterator =
  dereferencer :: "'t \<Rightarrow> (error + 'u) \<times> 't"
  compare :: "'t \<Rightarrow> 't \<Rightarrow> bool"
  current :: "'t option"

text \<open>\<open>explicit operator bool() const { return bool(current); }\<close>\<close>

definition Iterator_bool :: "('t, 'u, 'z) Iterator_scheme \<Rightarrow> bool" where
  "Iterator_bool it = (case current it of None \<Rightarrow> False | Some _ \<Rightarrow> True)"

text \<open>
  \<open>operator*\<close>: the result together with the cursor as the call leaves it. The
  dereferencer works on the held value in place.
\<close>

definition Iterator_star ::
  "('t, 'u, 'z) Iterator_scheme \<Rightarrow> (error + 'u) \<times> ('t, 'u, 'z) Iterator_scheme" where
  "Iterator_star it =
     (if \<not> Iterator_bool it then (Inl UndefinedIteratorException, it)
      else (case dereferencer it (the (current it)) of
              (r, v) \<Rightarrow> (r, it\<lparr>current := Some v\<rparr>)))"

text \<open>
  \<open>operator++\<close> calls the virtual \<open>advance\<close> on \<open>current\<close>; the override is the
  parameter \<open>advance\<close>, which receives the object it belongs to.
\<close>

definition Iterator_incr ::
  "(('t, 'u, 'z) Iterator_scheme \<Rightarrow> 't option \<Rightarrow> error + 't option) \<Rightarrow>
   ('t, 'u, 'z) Iterator_scheme \<Rightarrow> error + ('t, 'u, 'z) Iterator_scheme" where
  "Iterator_incr advance it =
     (case advance it (current it) of
        Inl e \<Rightarrow> Inl e
      | Inr value \<Rightarrow> Inr (it\<lparr>current := value\<rparr>))"

definition Iterator_eq ::
  "('t, 'u, 'z) Iterator_scheme \<Rightarrow> ('t, 'u, 'z) Iterator_scheme \<Rightarrow> bool" where
  "Iterator_eq it other =
     (if \<not> Iterator_bool it then \<not> Iterator_bool other
      else if \<not> Iterator_bool other then False
      else compare it (the (current it)) (the (current other)))"

text \<open>
  \<open>operator==\<close> reads \<open>*current\<close> and \<open>*other.current\<close>, and reading through an optional
  is undefined when it is empty. \<open>Iterator_eq_reads\<close> is \<open>operator==\<close> once more, with the
  two reads written as reads that can be undefined, so that a read of an empty optional
  would show in the result.
\<close>

definition optional_star :: "'t option \<Rightarrow> error + 't" where
  "optional_star v =
     (case v of None \<Rightarrow> Inl (Undefined EmptyOptionalAccess) | Some x \<Rightarrow> Inr x)"

definition Iterator_eq_reads ::
  "('t, 'u, 'z) Iterator_scheme \<Rightarrow> ('t, 'u, 'z) Iterator_scheme \<Rightarrow> error + bool" where
  "Iterator_eq_reads it other =
     (if \<not> Iterator_bool it then Inr (\<not> Iterator_bool other)
      else if \<not> Iterator_bool other then Inr False
      else (case optional_star (current it) of
              Inl e \<Rightarrow> Inl e
            | Inr a \<Rightarrow>
                (case optional_star (current other) of
                   Inl e \<Rightarrow> Inl e
                 | Inr b \<Rightarrow> Inr (compare it a b))))"

definition Iterator_neq ::
  "('t, 'u, 'z) Iterator_scheme \<Rightarrow> ('t, 'u, 'z) Iterator_scheme \<Rightarrow> bool" where
  "Iterator_neq it other \<longleftrightarrow> \<not> Iterator_eq it other"

section \<open>class CallbackIterator\<close>

record ('t, 'u) CallbackIterator = "('t, 'u) Iterator" +
  callback :: "'t option \<Rightarrow> error + 't option"

definition CallbackIterator ::
  "'t option \<Rightarrow> ('t option \<Rightarrow> error + 't option) \<Rightarrow> ('t \<Rightarrow> (error + 'u) \<times> 't) \<Rightarrow>
   ('t \<Rightarrow> 't \<Rightarrow> bool) \<Rightarrow> ('t, 'u) CallbackIterator" where
  "CallbackIterator first cb d c =
     \<lparr>dereferencer = d, compare = c, current = first, callback = cb\<rparr>"

definition CallbackIterator_advance ::
  "('t, 'u) CallbackIterator \<Rightarrow> 't option \<Rightarrow> error + 't option" where
  "CallbackIterator_advance it value = callback it value"

definition CallbackIterator_incr ::
  "('t, 'u) CallbackIterator \<Rightarrow> error + ('t, 'u) CallbackIterator" where
  "CallbackIterator_incr = Iterator_incr CallbackIterator_advance"

section \<open>WrappedIterator and wrap\<close>

record 'i WrappedIterator =
  beginIterator :: 'i
  endIterator :: 'i

definition wrap :: "'i \<Rightarrow> 'i \<Rightarrow> 'i WrappedIterator" where
  "wrap a b = \<lparr>beginIterator = a, endIterator = b\<rparr>"

section \<open>RangeIterator and range\<close>

record RangeIterator = "(int, int) Iterator" +
  increment :: int

definition RangeIterator :: "int \<Rightarrow> int \<Rightarrow> RangeIterator" where
  "RangeIterator start inc =
     \<lparr>dereferencer = dereference_ByValue, compare = compare_ByValue,
      current = Some start, increment = inc\<rparr>"

text \<open>\<open>*value += increment\<close>, again without a test of the optional.\<close>

definition RangeIterator_advance :: "RangeIterator \<Rightarrow> int option \<Rightarrow> error + int option" where
  "RangeIterator_advance it value =
     (case value of
        None \<Rightarrow> Inl (Undefined EmptyOptionalAccess)
      | Some x \<Rightarrow> (case int_add x (increment it) of Inl e \<Rightarrow> Inl e | Inr y \<Rightarrow> Inr (Some y)))"

definition RangeIterator_incr :: "RangeIterator \<Rightarrow> error + RangeIterator" where
  "RangeIterator_incr = Iterator_incr RangeIterator_advance"

text \<open>
  The three overloads of \<open>range\<close>. \<open>actualEnd = end - ((end - begin) % increment)\<close>.
\<close>

definition range3 :: "int \<Rightarrow> int \<Rightarrow> int \<Rightarrow> error + RangeIterator WrappedIterator" where
  "range3 beginValue endValue inc =
     (case int_sub endValue beginValue of
        Inl e \<Rightarrow> Inl e
      | Inr d \<Rightarrow>
          (case int_rem d inc of
             Inl e \<Rightarrow> Inl e
           | Inr r \<Rightarrow>
               (case int_sub endValue r of
                  Inl e \<Rightarrow> Inl e
                | Inr actualEnd \<Rightarrow>
                    Inr (wrap (RangeIterator beginValue inc) (RangeIterator actualEnd inc)))))"

definition range2 :: "int \<Rightarrow> int \<Rightarrow> error + RangeIterator WrappedIterator" where
  "range2 beginValue endValue = range3 beginValue endValue 1"

definition range1 :: "int \<Rightarrow> error + RangeIterator WrappedIterator" where
  "range1 endValue = range2 0 endValue"

section \<open>Traversal\<close>

text \<open>
  What a traversal needs of a cursor type: \<open>++c\<close>, \<open>*c\<close> and \<open>a == b\<close>.
\<close>

record ('c, 'v) cursor_ops =
  op_incr :: "'c \<Rightarrow> error + 'c"
  op_star :: "'c \<Rightarrow> (error + 'v) \<times> 'c"
  op_eq :: "'c \<Rightarrow> 'c \<Rightarrow> bool"

definition RangeIterator_ops :: "(RangeIterator, int) cursor_ops" where
  "RangeIterator_ops =
     \<lparr>op_incr = RangeIterator_incr, op_star = Iterator_star, op_eq = Iterator_eq\<rparr>"

definition CallbackIterator_ops :: "(('t, 'u) CallbackIterator, 'u) cursor_ops" where
  "CallbackIterator_ops =
     \<lparr>op_incr = CallbackIterator_incr, op_star = Iterator_star, op_eq = Iterator_eq\<rparr>"

text \<open>
  The range-based \<open>for\<close> statement over an object with \<open>begin()\<close> and \<open>end()\<close>:
  \<open>for (it = w.begin(), e = w.end(); it != e; ++it) { x = *it; ... }\<close>,
  collecting the values \<open>x\<close>. The loop need not end, so the result is an option:
  \<open>None\<close> when it runs forever, \<open>Some (Inl e)\<close> when it stops at an error,
  \<open>Some (Inr xs)\<close> when it ends having produced \<open>xs\<close>.
\<close>

partial_function (option) for_loop ::
  "('c, 'v) cursor_ops \<Rightarrow> 'c \<Rightarrow> 'c \<Rightarrow> (error + 'v list) option" where
  "for_loop ops it e =
     (if op_eq ops it e then Some (Inr [])
      else (case op_star ops it of
              (Inl err, _) \<Rightarrow> Some (Inl err)
            | (Inr x, it1) \<Rightarrow>
                (case op_incr ops it1 of
                   Inl err \<Rightarrow> Some (Inl err)
                 | Inr it2 \<Rightarrow>
                     Option.bind (for_loop ops it2 e)
                       (\<lambda>r. Some (case r of Inl err \<Rightarrow> Inl err | Inr xs \<Rightarrow> Inr (x # xs))))))"

declare for_loop.simps [code]

definition for_each :: "('c, 'v) cursor_ops \<Rightarrow> 'c WrappedIterator \<Rightarrow> (error + 'v list) option" where
  "for_each ops w = for_loop ops (beginIterator w) (endIterator w)"

text \<open>\<open>n\<close> times \<open>++\<close>, stopping at the first failure.\<close>

fun advance_times :: "('c \<Rightarrow> error + 'c) \<Rightarrow> nat \<Rightarrow> 'c \<Rightarrow> error + 'c" where
  "advance_times incr 0 it = Inr it"
| "advance_times incr (Suc n) it =
     (case incr it of Inl e \<Rightarrow> Inl e | Inr it' \<Rightarrow> advance_times incr n it')"

section \<open>Standard containers\<close>

text \<open>
  The sequences handed to \<open>zip\<close> and \<open>enumerate\<close> are objects with \<open>begin()\<close> and
  \<open>end()\<close>; the header's own \<open>WrappedIterator\<close> is one, a standard container such as
  \<open>std::vector\<close> is another. The standard library is not part of the repository: a
  container is modelled by its elements, and its iterator by the container and a
  position in it. Incrementing or reading an iterator that is not before the end of its
  container is undefined.
\<close>

datatype 'v StdIterator = StdIterator (elements: "'v list") (pos: nat)

definition StdIterator_incr :: "'v StdIterator \<Rightarrow> error + 'v StdIterator" where
  "StdIterator_incr it =
     (if pos it < length (elements it) then Inr (StdIterator (elements it) (Suc (pos it)))
      else Inl (Undefined PastTheEnd))"

definition StdIterator_star :: "'v StdIterator \<Rightarrow> (error + 'v) \<times> 'v StdIterator" where
  "StdIterator_star it =
     (if pos it < length (elements it) then (Inr (elements it ! pos it), it)
      else (Inl (Undefined PastTheEnd), it))"

definition StdIterator_eq :: "'v StdIterator \<Rightarrow> 'v StdIterator \<Rightarrow> bool" where
  "StdIterator_eq a b \<longleftrightarrow> pos a = pos b"

definition StdIterator_ops :: "('v StdIterator, 'v) cursor_ops" where
  "StdIterator_ops =
     \<lparr>op_incr = StdIterator_incr, op_star = StdIterator_star, op_eq = StdIterator_eq\<rparr>"

definition std_vector :: "'v list \<Rightarrow> 'v StdIterator WrappedIterator" where
  "std_vector xs = wrap (StdIterator xs 0) (StdIterator xs (length xs))"

section \<open>zip and enumerate\<close>

text \<open>
  The cursor types of a heterogeneous tuple are embedded into a sum type; \<open>sum_ops\<close>
  gives the sum the operators of its two sides. Cursors of different sides are never
  compared by the header (a tuple position has one type).
\<close>

definition sum_ops ::
  "('a, 'v) cursor_ops \<Rightarrow> ('b, 'w) cursor_ops \<Rightarrow> ('a + 'b, 'v + 'w) cursor_ops" where
  "sum_ops A B =
     \<lparr>op_incr = (\<lambda>c. case c of
          Inl a \<Rightarrow> (case op_incr A a of Inl e \<Rightarrow> Inl e | Inr a' \<Rightarrow> Inr (Inl a'))
        | Inr b \<Rightarrow> (case op_incr B b of Inl e \<Rightarrow> Inl e | Inr b' \<Rightarrow> Inr (Inr b'))),
      op_star = (\<lambda>c. case c of
          Inl a \<Rightarrow> (case op_star A a of (r, a') \<Rightarrow> (map_sum id Inl r, Inl a'))
        | Inr b \<Rightarrow> (case op_star B b of (r, b') \<Rightarrow> (map_sum id Inr r, Inr b'))),
      op_eq = (\<lambda>c d. case (c, d) of
          (Inl a, Inl a') \<Rightarrow> op_eq A a a'
        | (Inr b, Inr b') \<Rightarrow> op_eq B b b'
        | _ \<Rightarrow> False)\<rparr>"

definition map_WrappedIterator :: "('i \<Rightarrow> 'j) \<Rightarrow> 'i WrappedIterator \<Rightarrow> 'j WrappedIterator" where
  "map_WrappedIterator f w = wrap (f (beginIterator w)) (f (endIterator w))"

text \<open>
  \<open>zip(args...)\<close>: both cursors hold the tuple of the arguments' \<open>begin()\<close>, respectively
  \<open>end()\<close>, cursors, with the three tuple strategies. \<open>ops\<close> are the operators of the
  arguments' cursor type. The tuple dereferencer returns the values the sub-cursors
  refer to.
\<close>

definition zip_it ::
  "('c, 'v) cursor_ops \<Rightarrow> 'c WrappedIterator list \<Rightarrow>
   ('c list, 'v list) CallbackIterator WrappedIterator" where
  "zip_it ops args =
     (let begin_it = CallbackIterator (Some (map beginIterator args))
            (increment_ByTupleIncrement (op_incr ops))
            (dereference_ByTupleDereference (op_star ops))
            (compare_ByLastTupleElementMatch (op_eq ops));
          end_it = CallbackIterator (Some (map endIterator args))
            (increment_ByTupleIncrement (op_incr ops))
            (dereference_ByTupleDereference (op_star ops))
            (compare_ByLastTupleElementMatch (op_eq ops))
      in wrap begin_it end_it)"

text \<open>
  \<open>enumerate(t)\<close> is \<open>zip(wrap(RangeIterator(0),RangeIterator(0)), t)\<close>;
  \<open>RangeIterator(0)\<close> takes the default increment 1.
\<close>

definition enumerate_it ::
  "('c, 'v) cursor_ops \<Rightarrow> 'c WrappedIterator \<Rightarrow>
   ((RangeIterator + 'c) list, (int + 'v) list) CallbackIterator WrappedIterator" where
  "enumerate_it ops t =
     zip_it (sum_ops RangeIterator_ops ops)
       [map_WrappedIterator Inl (wrap (RangeIterator 0 1) (RangeIterator 0 1)),
        map_WrappedIterator Inr t]"

section \<open>Auxiliary definitions\<close>

text \<open>
  The statement \<open>for (x : r)\<close> for an expression \<open>r\<close> that may itself be undefined:
  the expression is evaluated first, then the loop runs.
\<close>

definition range_for ::
  "('c, 'v) cursor_ops \<Rightarrow> error + 'c WrappedIterator \<Rightarrow> (error + 'v list) option" where
  "range_for ops r = (case r of Inl e \<Rightarrow> Some (Inl e) | Inr w \<Rightarrow> for_each ops w)"

text \<open>
  A dereferencer that a caller can pass as \<open>D\<close>; it is not part of the header:
  \<open>struct PreIncrement { int & operator()(int & v) const { return ++v; } };\<close>
\<close>

definition dereference_PreIncrement :: "int \<Rightarrow> (error + int) \<times> int" where
  "dereference_PreIncrement v =
     (case int_add v 1 of Inl e \<Rightarrow> (Inl e, v) | Inr w \<Rightarrow> (Inr w, w))"

text \<open>The cursor that \<open>zip\<close> builds around a tuple \<open>cs\<close> of sub-cursors.\<close>

definition zip_cursor :: "('c, 'v) cursor_ops \<Rightarrow> 'c list \<Rightarrow> ('c list, 'v list) CallbackIterator" where
  "zip_cursor ops cs =
     CallbackIterator (Some cs)
       (increment_ByTupleIncrement (op_incr ops))
       (dereference_ByTupleDereference (op_star ops))
       (compare_ByLastTupleElementMatch (op_eq ops))"

section \<open>Basic facts\<close>

subsection \<open>Scalars\<close>

lemma is_int_between: "is_int a \<Longrightarrow> is_int b \<Longrightarrow> (a \<le> x \<and> x \<le> b) \<or> (b \<le> x \<and> x \<le> a) \<Longrightarrow> is_int x"
  by (auto simp: is_int_def)

lemma step_between:
  "(v \<le> v + s \<and> v + s \<le> v + (1 + int k) * s) \<or> (v + (1 + int k) * s \<le> v + s \<and> v + s \<le> (v::int))"
proof (cases "0 \<le> s")
  case True
  then have "s * 1 \<le> s * (1 + int k)" by (intro mult_left_mono) auto
  with True show ?thesis by (simp add: algebra_simps)
next
  case False
  then have "s * (1 + int k) \<le> s * 1" by (intro mult_left_mono_neg) auto
  with False show ?thesis by (simp add: algebra_simps)
qed

lemma map_upt_shift: "map f [0..<Suc k] = f 0 # map (\<lambda>j. f (Suc j)) [0..<k]"
  by (simp add: upt_conv_Cons map_Suc_upt [symmetric] del: upt_Suc)

lemma smod_between:
  fixes d s :: int
  assumes "s \<noteq> 0"
  shows "(0 \<le> d \<longrightarrow> 0 \<le> d smod s \<and> d smod s \<le> d) \<and> (d \<le> 0 \<longrightarrow> d \<le> d smod s \<and> d smod s \<le> 0)"
proof -
  have a: "0 \<le> \<bar>d\<bar> mod \<bar>s\<bar>" using assms by simp
  have b: "\<bar>d\<bar> mod \<bar>s\<bar> \<le> \<bar>d\<bar>" by (rule zmod_le_nonneg_dividend) simp
  show ?thesis
    using a b by (cases "d = 0"; cases "0 < d") (simp_all add: smod_int_alt_def sgn_if)
qed

lemma actualEnd_eq:
  fixes b e s :: int
  shows "e - (e - b) smod s = b + (e - b) sdiv s * s"
  using minus_smod_eq_sdiv_mult [of "e - b" s] by simp

lemma is_int_actualEnd:
  assumes "is_int b" "is_int e" "s \<noteq> 0"
  shows "is_int (e - (e - b) smod s)"
proof -
  have "(b \<le> e - (e - b) smod s \<and> e - (e - b) smod s \<le> e) \<or> (e \<le> e - (e - b) smod s \<and> e - (e - b) smod s \<le> b)"
    using smod_between [OF assms(3), of "e - b"] by (cases "b \<le> e") auto
  then show ?thesis
    using is_int_between [OF assms(1,2)] is_int_between [OF assms(2,1)] by blast
qed

lemma sdiv_nonneg: "0 \<le> a \<Longrightarrow> 0 < b \<Longrightarrow> (a::int) sdiv b = a div b"
  by (simp add: signed_divide_int_def sgn_if)

lemma smod_nonneg: "0 \<le> a \<Longrightarrow> 0 < b \<Longrightarrow> (a::int) smod b = a mod b"
  by (simp add: smod_int_alt_def sgn_if)

lemma is_int_sdiv: "is_int d \<Longrightarrow> 0 \<le> d \<Longrightarrow> is_int (d sdiv s)"
  using sdiv_int_range [of d s] by (simp add: is_int_def INT_MIN_def INT_MAX_def)

lemma is_int_numeral [simp]: "is_int (numeral n) \<longleftrightarrow> numeral n \<le> INT_MAX"
  by (simp add: is_int_def INT_MIN_def)

subsection \<open>Arithmetic-progression cursors\<close>

lemma RangeIterator_ops_sel:
  "op_incr RangeIterator_ops = RangeIterator_incr"
  "op_star RangeIterator_ops = Iterator_star"
  "op_eq RangeIterator_ops = Iterator_eq"
  by (simp_all add: RangeIterator_ops_def)

lemma RangeIterator_eq_iff: "Iterator_eq (RangeIterator a s) (RangeIterator b s') \<longleftrightarrow> a = b"
  by (simp add: Iterator_eq_def Iterator_bool_def RangeIterator_def compare_ByValue_def)

lemma RangeIterator_star: "Iterator_star (RangeIterator a s) = (Inr a, RangeIterator a s)"
  by (simp add: Iterator_star_def Iterator_bool_def RangeIterator_def dereference_ByValue_def)

lemma RangeIterator_incr_ok:
  "is_int (a + s) \<Longrightarrow> RangeIterator_incr (RangeIterator a s) = Inr (RangeIterator (a + s) s)"
  by (simp add: RangeIterator_incr_def Iterator_incr_def RangeIterator_advance_def
      RangeIterator_def int_add_def)

lemma advance_times_range:
  "is_int v \<Longrightarrow> is_int (v + int k * s) \<Longrightarrow>
   advance_times RangeIterator_incr k (RangeIterator v s) = Inr (RangeIterator (v + int k * s) s)"
proof (induction k arbitrary: v)
  case 0
  show ?case by simp
next
  case (Suc k)
  have mid: "is_int (v + s)"
    using is_int_between [OF Suc.prems(1,2), of "v + s"] step_between [of v s k] by simp
  have e: "v + s + int k * s = v + int (Suc k) * s" by (simp add: algebra_simps)
  have "advance_times RangeIterator_incr k (RangeIterator (v + s) s)
      = Inr (RangeIterator (v + int (Suc k) * s) s)"
    using Suc.IH [of "v + s"] mid Suc.prems(2) unfolding e by simp
  then show ?case
    by (simp add: RangeIterator_incr_ok [OF mid] del: of_nat_Suc)
qed

lemma for_loop_range_k:
  "is_int v \<Longrightarrow> is_int (v + int k * s) \<Longrightarrow> s \<noteq> 0 \<Longrightarrow>
   for_loop RangeIterator_ops (RangeIterator v s) (RangeIterator (v + int k * s) s)
     = Some (Inr (map (\<lambda>j. v + int j * s) [0..<k]))"
proof (induction k arbitrary: v)
  case 0
  show ?case
    by (subst for_loop.simps) (simp add: RangeIterator_ops_sel RangeIterator_eq_iff)
next
  case (Suc k)
  have mid: "is_int (v + s)"
    using is_int_between [OF Suc.prems(1,2), of "v + s"] step_between [of v s k] by simp
  have e: "v + s + int k * s = v + int (Suc k) * s" by (simp add: algebra_simps)
  have IH: "for_loop RangeIterator_ops (RangeIterator (v + s) s) (RangeIterator (v + int (Suc k) * s) s)
     = Some (Inr (map (\<lambda>j. v + s + int j * s) [0..<k]))"
    using Suc.IH [of "v + s"] mid Suc.prems unfolding e by simp
  have ne: "v \<noteq> v + int (Suc k) * s" using Suc.prems(3) by simp
  have m: "map (\<lambda>j. v + int j * s) [0..<Suc k] = v # map (\<lambda>j. v + s + int j * s) [0..<k]"
    by (subst map_upt_shift) (simp add: algebra_simps)
  show ?case
    unfolding m using Suc.prems(3)
    by (subst for_loop.simps)
      (simp add: RangeIterator_ops_sel RangeIterator_eq_iff RangeIterator_star
        RangeIterator_incr_ok [OF mid] IH ne del: of_nat_Suc)
qed

lemma RangeIterator_incr_overflow:
  "\<not> is_int (a + s) \<Longrightarrow> RangeIterator_incr (RangeIterator a s) = Inl (Undefined SignedOverflow)"
  by (simp add: RangeIterator_incr_def Iterator_incr_def RangeIterator_advance_def
      RangeIterator_def int_add_def)

lemma RangeIterator_incr_live:
  "current r = Some x \<Longrightarrow> RangeIterator_incr r = Inr r' \<Longrightarrow>
   current r' = Some (x + increment r) \<and> increment r' = increment r"
  by (auto simp: RangeIterator_incr_def Iterator_incr_def RangeIterator_advance_def int_add_def
      split: if_splits)

lemma advance_times_range_returns:
  "is_int x \<Longrightarrow> advance_times RangeIterator_incr n (RangeIterator x s) = Inr r' \<Longrightarrow>
   is_int (x + int n * s) \<and> r' = RangeIterator (x + int n * s) s"
proof (induction n arbitrary: x)
  case 0
  then show ?case by simp
next
  case (Suc n)
  from Suc.prems(2) obtain r1 where r1: "RangeIterator_incr (RangeIterator x s) = Inr r1"
    and rest: "advance_times RangeIterator_incr n r1 = Inr r'"
    by (auto split: sum.splits)
  have mid: "is_int (x + s)"
    using r1 RangeIterator_incr_overflow [of x s] by (cases "is_int (x + s)") simp_all
  then have "r1 = RangeIterator (x + s) s"
    using r1 by (simp add: RangeIterator_incr_ok)
  with Suc.IH [OF mid] rest show ?case
    by (simp add: algebra_simps)
qed

lemma advance_times_live:
  "current r = Some x \<Longrightarrow> advance_times RangeIterator_incr n r = Inr r' \<Longrightarrow>
   current r' = Some (x + int n * increment r) \<and> increment r' = increment r"
proof (induction n arbitrary: r x)
  case 0
  then show ?case by simp
next
  case (Suc n)
  from Suc.prems(2) obtain r1 where r1: "RangeIterator_incr r = Inr r1"
    and rest: "advance_times RangeIterator_incr n r1 = Inr r'"
    by (auto split: sum.splits)
  from RangeIterator_incr_live [OF Suc.prems(1) r1]
  have c: "current r1 = Some (x + increment r)" and i: "increment r1 = increment r" by simp_all
  from Suc.IH [OF c rest] i show ?case by (simp add: algebra_simps)
qed

lemma for_loop_range_overshoot:
  assumes s: "0 < s"
  shows "is_int v \<Longrightarrow> t < v \<Longrightarrow>
    for_loop RangeIterator_ops (RangeIterator v s) (RangeIterator t s)
      = Some (Inl (Undefined SignedOverflow))"
proof (induction "nat (INT_MAX - v)" arbitrary: v rule: less_induct)
  case less
  show ?case
  proof (cases "is_int (v + s)")
    case False
    then show ?thesis
      using less.prems
      by (subst for_loop.simps)
        (simp add: RangeIterator_ops_sel RangeIterator_eq_iff RangeIterator_star
          RangeIterator_incr_overflow)
  next
    case True
    have "nat (INT_MAX - (v + s)) < nat (INT_MAX - v)"
      using s True by (simp add: is_int_def)
    then have IH: "for_loop RangeIterator_ops (RangeIterator (v + s) s) (RangeIterator t s)
      = Some (Inl (Undefined SignedOverflow))"
      using less.hyps [of "v + s"] True less.prems s by simp
    show ?thesis
      using less.prems
      by (subst for_loop.simps)
        (simp add: RangeIterator_ops_sel RangeIterator_eq_iff RangeIterator_star
          RangeIterator_incr_ok [OF True] IH)
  qed
qed

lemma for_loop_range_undershoot:
  assumes s: "s < 0"
  shows "is_int v \<Longrightarrow> v < t \<Longrightarrow>
    for_loop RangeIterator_ops (RangeIterator v s) (RangeIterator t s)
      = Some (Inl (Undefined SignedOverflow))"
proof (induction "nat (v - INT_MIN)" arbitrary: v rule: less_induct)
  case less
  show ?case
  proof (cases "is_int (v + s)")
    case False
    then show ?thesis
      using less.prems
      by (subst for_loop.simps)
        (simp add: RangeIterator_ops_sel RangeIterator_eq_iff RangeIterator_star
          RangeIterator_incr_overflow)
  next
    case True
    have "nat (v + s - INT_MIN) < nat (v - INT_MIN)"
      using s True by (simp add: is_int_def)
    then have IH: "for_loop RangeIterator_ops (RangeIterator (v + s) s) (RangeIterator t s)
      = Some (Inl (Undefined SignedOverflow))"
      using less.hyps [of "v + s"] True less.prems s by simp
    show ?thesis
      using less.prems
      by (subst for_loop.simps)
        (simp add: RangeIterator_ops_sel RangeIterator_eq_iff RangeIterator_star
          RangeIterator_incr_ok [OF True] IH)
  qed
qed

lemma range3_ok:
  assumes "is_int b" "is_int e" "s \<noteq> 0" "is_int (e - b)" "is_int ((e - b) sdiv s)"
  shows "range3 b e s = Inr (wrap (RangeIterator b s) (RangeIterator (e - (e - b) smod s) s))"
  using assms is_int_actualEnd [OF assms(1,2,3)]
  by (simp add: range3_def int_sub_def int_rem_def)

lemma range3_for_each:
  assumes "is_int b" "is_int e" "s \<noteq> 0" "is_int (e - b)" "is_int ((e - b) sdiv s)"
    and q: "0 \<le> (e - b) sdiv s"
  shows "for_loop RangeIterator_ops (RangeIterator b s) (RangeIterator (e - (e - b) smod s) s)
    = Some (Inr (map (\<lambda>j. b + int j * s) [0..<nat ((e - b) sdiv s)]))"
proof -
  have e: "e - (e - b) smod s = b + int (nat ((e - b) sdiv s)) * s"
    using q by (simp add: actualEnd_eq)
  show ?thesis
    unfolding e
    by (rule for_loop_range_k) (use assms is_int_actualEnd [OF assms(1,2,3)] e in simp_all)
qed

lemma range_for_range3:
  assumes "is_int b" "is_int e" "s \<noteq> 0" "is_int (e - b)" "is_int ((e - b) sdiv s)"
    and "0 \<le> (e - b) sdiv s"
  shows "range_for RangeIterator_ops (range3 b e s)
    = Some (Inr (map (\<lambda>j. b + int j * s) [0..<nat ((e - b) sdiv s)]))"
  using range3_for_each [OF assms]
  by (simp add: range_for_def for_each_def range3_ok [OF assms(1-5)] wrap_def)

lemma range_for_range3_away:
  assumes "is_int b" "is_int e" "s \<noteq> 0" "is_int (e - b)" "is_int ((e - b) sdiv s)"
    and q: "(e - b) sdiv s < 0"
  shows "range_for RangeIterator_ops (range3 b e s) = Some (Inl (Undefined SignedOverflow))"
proof -
  let ?t = "e - (e - b) smod s"
  have t: "?t = b + (e - b) sdiv s * s" by (rule actualEnd_eq)
  have loop: "for_loop RangeIterator_ops (RangeIterator b s) (RangeIterator ?t s)
      = Some (Inl (Undefined SignedOverflow))"
  proof (cases "0 < s")
    case True
    then have "(e - b) sdiv s * s < 0" using q by (simp add: mult_neg_pos)
    then have "?t < b" unfolding t by simp
    then show ?thesis using True assms(1) by (intro for_loop_range_overshoot)
  next
    case False
    then have neg: "s < 0" using assms(3) by simp
    then have "0 < (e - b) sdiv s * s" using q by (simp add: mult_neg_neg)
    then have "b < ?t" unfolding t by simp
    then show ?thesis using neg assms(1) by (intro for_loop_range_undershoot)
  qed
  show ?thesis
    using loop by (simp add: range_for_def for_each_def range3_ok [OF assms(1-5)] wrap_def)
qed

subsection \<open>Tuple cursors\<close>

lemma zip_it_cursors:
  "zip_it ops args = wrap (zip_cursor ops (map beginIterator args)) (zip_cursor ops (map endIterator args))"
  by (simp add: zip_it_def zip_cursor_def Let_def)

lemma CallbackIterator_ops_sel:
  "op_incr CallbackIterator_ops = CallbackIterator_incr"
  "op_star CallbackIterator_ops = Iterator_star"
  "op_eq CallbackIterator_ops = Iterator_eq"
  by (simp_all add: CallbackIterator_ops_def)

lemma tuple_each_Inr_iff:
  "tuple_each f cs = Inr ds \<longleftrightarrow> list_all2 (\<lambda>c d. f c = Inr d) cs ds"
proof (induction cs arbitrary: ds)
  case Nil
  show ?case by auto
next
  case (Cons c cs)
  show ?case
    by (cases ds) (auto simp: Cons.IH [symmetric] split: sum.splits)
qed

lemma tuple_each_map:
  "(\<And>x. x \<in> set xs \<Longrightarrow> f (g x) = Inr (h x)) \<Longrightarrow> tuple_each f (map g xs) = Inr (map h xs)"
  by (induction xs) simp_all

lemma tuple_each_error:
  "tuple_each f cs = Inl e \<Longrightarrow> \<exists>c \<in> set cs. f c = Inl e"
  by (induction cs) (auto split: sum.splits)

lemma last_match_last:
  "cs \<noteq> [] \<Longrightarrow> ds \<noteq> [] \<Longrightarrow>
   compare_ByLastTupleElementMatch eq cs ds = eq (last cs) (last ds)"
  by (cases cs rule: rev_cases; cases ds rule: rev_cases)
     (simp_all add: compare_ByLastTupleElementMatch_def)

lemma zip_cursor_incr:
  "CallbackIterator_incr (zip_cursor ops cs) =
     (case tuple_each (op_incr ops) cs of Inl e \<Rightarrow> Inl e | Inr cs' \<Rightarrow> Inr (zip_cursor ops cs'))"
  by (simp add: CallbackIterator_incr_def Iterator_incr_def CallbackIterator_advance_def
      zip_cursor_def CallbackIterator_def increment_ByTupleIncrement_def split: sum.splits)

lemma zip_cursor_star:
  "Iterator_star (zip_cursor ops cs) =
     (tuple_each (\<lambda>c. fst (op_star ops c)) cs,
      zip_cursor ops (map (\<lambda>c. snd (op_star ops c)) cs))"
  by (simp add: Iterator_star_def Iterator_bool_def zip_cursor_def CallbackIterator_def
      dereference_ByTupleDereference_def)

lemma map_snd_star_id:
  "(\<And>c. c \<in> set cs \<Longrightarrow> snd (op_star ops c) = c) \<Longrightarrow> map (\<lambda>c. snd (op_star ops c)) cs = cs"
  by (induction cs) simp_all

lemma zip_cursor_eq:
  "Iterator_eq (zip_cursor ops cs) (zip_cursor ops ds) =
     compare_ByLastTupleElementMatch (op_eq ops) cs ds"
  by (simp add: Iterator_eq_def Iterator_bool_def zip_cursor_def CallbackIterator_def)

lemma StdIterator_ops_sel:
  "op_incr StdIterator_ops = StdIterator_incr"
  "op_star StdIterator_ops = StdIterator_star"
  "op_eq StdIterator_ops = StdIterator_eq"
  by (simp_all add: StdIterator_ops_def)

lemma StdIterator_star_snd: "snd (StdIterator_star it) = it"
  by (simp add: StdIterator_star_def)

lemma map_snd_star_Std:
  "map ((\<lambda>c. snd (op_star StdIterator_ops c)) \<circ> f) xss = map f xss"
  by (simp add: StdIterator_ops_sel StdIterator_star_snd comp_def)

lemma for_loop_zip_std:
  assumes ne: "xss \<noteq> []" and len: "\<And>xs. xs \<in> set xss \<Longrightarrow> length (last xss) \<le> length xs"
  shows "i \<le> length (last xss) \<Longrightarrow>
    for_loop CallbackIterator_ops
      (zip_cursor StdIterator_ops (map (\<lambda>xs. StdIterator xs i) xss))
      (zip_cursor StdIterator_ops (map (\<lambda>xs. StdIterator xs (length xs)) xss))
    = Some (Inr (map (\<lambda>j. map (\<lambda>xs. xs ! j) xss) [i..<length (last xss)]))"
proof (induction "length (last xss) - i" arbitrary: i)
  case 0
  then have i: "i = length (last xss)" by simp
  show ?case
    by (subst for_loop.simps)
      (simp add: CallbackIterator_ops_sel zip_cursor_eq last_match_last ne last_map
        StdIterator_ops_sel StdIterator_eq_def i)
next
  case (Suc d)
  then have lt: "i < length (last xss)" and d: "d = length (last xss) - Suc i" by simp_all
  have lt': "i < length xs" if "xs \<in> set xss" for xs using len [OF that] lt by simp
  have star: "tuple_each (\<lambda>c. fst (op_star StdIterator_ops c)) (map (\<lambda>xs. StdIterator xs i) xss)
      = Inr (map (\<lambda>xs. xs ! i) xss)"
    by (rule tuple_each_map) (simp add: StdIterator_ops_sel StdIterator_star_def lt')
  have incr: "tuple_each (op_incr StdIterator_ops) (map (\<lambda>xs. StdIterator xs i) xss)
      = Inr (map (\<lambda>xs. StdIterator xs (Suc i)) xss)"
    by (rule tuple_each_map) (simp add: StdIterator_ops_sel StdIterator_incr_def lt')
  have IH: "for_loop CallbackIterator_ops
      (zip_cursor StdIterator_ops (map (\<lambda>xs. StdIterator xs (Suc i)) xss))
      (zip_cursor StdIterator_ops (map (\<lambda>xs. StdIterator xs (length xs)) xss))
    = Some (Inr (map (\<lambda>j. map (\<lambda>xs. xs ! j) xss) [Suc i..<length (last xss)]))"
    using Suc.hyps(1) [OF d] lt by simp
  have neq: "\<not> Iterator_eq (zip_cursor StdIterator_ops (map (\<lambda>xs. StdIterator xs i) xss))
      (zip_cursor StdIterator_ops (map (\<lambda>xs. StdIterator xs (length xs)) xss))"
    using lt by (simp add: zip_cursor_eq last_match_last ne last_map StdIterator_ops_sel StdIterator_eq_def)
  show ?case
    by (subst for_loop.simps)
      (simp add: CallbackIterator_ops_sel neq zip_cursor_star star map_snd_star_Std
        zip_cursor_incr incr IH upt_conv_Cons [OF lt])
qed

lemma for_each_zip_std:
  assumes "xss \<noteq> []" and "\<And>xs. xs \<in> set xss \<Longrightarrow> length (last xss) \<le> length xs"
  shows "for_each CallbackIterator_ops (zip_it StdIterator_ops (map std_vector xss))
    = Some (Inr (map (\<lambda>j. map (\<lambda>xs. xs ! j) xss) [0..<length (last xss)]))"
  using for_loop_zip_std [OF assms, of 0]
  by (simp add: for_each_def zip_it_cursors wrap_def std_vector_def comp_def)

lemma sum_ops_sel:
  "op_incr (sum_ops A B) (Inl a) = (case op_incr A a of Inl e \<Rightarrow> Inl e | Inr a' \<Rightarrow> Inr (Inl a'))"
  "op_incr (sum_ops A B) (Inr b) = (case op_incr B b of Inl e \<Rightarrow> Inl e | Inr b' \<Rightarrow> Inr (Inr b'))"
  "op_star (sum_ops A B) (Inl a) = (case op_star A a of (r, a') \<Rightarrow> (map_sum id Inl r, Inl a'))"
  "op_star (sum_ops A B) (Inr b) = (case op_star B b of (r, b') \<Rightarrow> (map_sum id Inr r, Inr b'))"
  "op_eq (sum_ops A B) (Inl a) (Inl a') = op_eq A a a'"
  "op_eq (sum_ops A B) (Inr b) (Inr b') = op_eq B b b'"
  by (simp_all add: sum_ops_def)

lemma enumerate_it_cursors:
  "enumerate_it ops t =
     wrap (zip_cursor (sum_ops RangeIterator_ops ops) [Inl (RangeIterator 0 1), Inr (beginIterator t)])
          (zip_cursor (sum_ops RangeIterator_ops ops) [Inl (RangeIterator 0 1), Inr (endIterator t)])"
  by (simp add: enumerate_it_def zip_it_cursors map_WrappedIterator_def wrap_def)

lemma enumerate_eq_last:
  "Iterator_eq (zip_cursor (sum_ops RangeIterator_ops ops) [Inl a, Inr c])
               (zip_cursor (sum_ops RangeIterator_ops ops) [Inl b, Inr d]) = op_eq ops c d"
  by (simp add: zip_cursor_eq last_match_last sum_ops_sel)

lemma for_loop_enumerate_std:
  assumes n: "is_int (int (length xs))"
  shows "i \<le> length xs \<Longrightarrow>
    for_loop CallbackIterator_ops
      (zip_cursor (sum_ops RangeIterator_ops StdIterator_ops) [Inl (RangeIterator (int i) 1), Inr (StdIterator xs i)])
      (zip_cursor (sum_ops RangeIterator_ops StdIterator_ops) [Inl (RangeIterator 0 1), Inr (StdIterator xs (length xs))])
    = Some (Inr (map (\<lambda>j. [Inl (int j), Inr (xs ! j)]) [i..<length xs]))"
proof (induction "length xs - i" arbitrary: i)
  case 0
  then have i: "i = length xs" by simp
  show ?case
    by (subst for_loop.simps)
      (simp add: CallbackIterator_ops_sel enumerate_eq_last StdIterator_ops_sel StdIterator_eq_def i)
next
  case (Suc d)
  then have lt: "i < length xs" and d: "d = length xs - Suc i" by simp_all
  have "is_int (int i + 1)"
    using n lt by (simp add: is_int_def INT_MIN_def INT_MAX_def)
  then have incr: "RangeIterator_incr (RangeIterator (int i) 1) = Inr (RangeIterator (int (Suc i)) 1)"
    by (simp add: RangeIterator_incr_ok add.commute)
  have IH: "for_loop CallbackIterator_ops
      (zip_cursor (sum_ops RangeIterator_ops StdIterator_ops) [Inl (RangeIterator (int (Suc i)) 1), Inr (StdIterator xs (Suc i))])
      (zip_cursor (sum_ops RangeIterator_ops StdIterator_ops) [Inl (RangeIterator 0 1), Inr (StdIterator xs (length xs))])
    = Some (Inr (map (\<lambda>j. [Inl (int j), Inr (xs ! j)]) [Suc i..<length xs]))"
    using Suc.hyps(1) [OF d] lt by simp
  show ?case
    using lt
    by (subst for_loop.simps)
      (simp add: CallbackIterator_ops_sel enumerate_eq_last zip_cursor_star zip_cursor_incr
        sum_ops_sel RangeIterator_ops_sel StdIterator_ops_sel StdIterator_eq_def
        StdIterator_star_def StdIterator_incr_def RangeIterator_star incr IH
        upt_conv_Cons [OF lt] del: of_nat_Suc)
qed

lemma for_each_enumerate_std:
  assumes "is_int (int (length xs))"
  shows "for_each CallbackIterator_ops (enumerate_it StdIterator_ops (std_vector xs))
    = Some (Inr (map (\<lambda>j. [Inl (int j), Inr (xs ! j)]) [0..<length xs]))"
  using for_loop_enumerate_std [OF assms, of 0]
  by (simp add: for_each_def enumerate_it_cursors wrap_def std_vector_def)

section \<open>The claims\<close>

subsection \<open>C1: the values of a range\<close>

text \<open>
  The loop over \<open>range(2,10,3)\<close> compares the begin cursor with an end cursor that holds
  \<open>actualEnd = 10 - (8 % 3) = 8\<close>, so it stops before 8 is produced: the values are
  2 and 5, not 2, 5 and 8.
\<close>

theorem range_2_10_3_yields_2_5:
  "range_for RangeIterator_ops (range3 2 10 3) = Some (Inr [2, 5]) \<and>
   range_for RangeIterator_ops (range3 2 10 3) \<noteq> Some (Inr [2, 5, 8])"
proof -
  have "range_for RangeIterator_ops (range3 2 10 3) = Some (Inr [2, 5])"
    by code_simp
  then show ?thesis by simp
qed

text \<open>
  Claim C1, as the code has it: for \<open>int\<close> values \<open>beginValue \<le> endValue\<close> whose difference
  is representable and every positive step, the traversal of
  \<open>range(beginValue, endValue, step)\<close> yields exactly \<open>floor((endValue - beginValue) / step)\<close>
  values (not the ceiling): the first is \<open>beginValue\<close>, each further one is \<open>step\<close> more than
  the one before, and every value is below \<open>endValue\<close>, so \<open>endValue\<close> is never yielded.
\<close>

theorem range3_yields_floor:
  assumes "is_int b" and "is_int e" and "b \<le> e" and "0 < s" and "is_int (e - b)"
  shows "range_for RangeIterator_ops (range3 b e s)
           = Some (Inr (map (\<lambda>j. b + int j * s) [0..<nat ((e - b) div s)])) \<and>
         (\<forall>j < nat ((e - b) div s). b + int j * s < e)"
proof -
  have d: "0 \<le> e - b" using assms(3) by simp
  have q: "(e - b) sdiv s = (e - b) div s" using d assms(4) by (rule sdiv_nonneg)
  have q0: "0 \<le> (e - b) div s" using d assms(4) by (simp add: pos_imp_zdiv_nonneg_iff)
  have "range_for RangeIterator_ops (range3 b e s)
      = Some (Inr (map (\<lambda>j. b + int j * s) [0..<nat ((e - b) sdiv s)]))"
    using assms is_int_sdiv [OF assms(5) d, of s] q q0
    by (intro range_for_range3) simp_all
  then have A: "range_for RangeIterator_ops (range3 b e s)
      = Some (Inr (map (\<lambda>j. b + int j * s) [0..<nat ((e - b) div s)]))"
    by (simp only: q)
  have B: "b + int j * s < e" if "j < nat ((e - b) div s)" for j
  proof -
    have "int j + 1 \<le> (e - b) div s" using that by simp
    then have "(int j + 1) * s \<le> (e - b) div s * s"
      using assms(4) by (intro mult_right_mono) simp_all
    also have "\<dots> \<le> e - b"
      using pos_mod_sign [OF assms(4), of "e - b"]
      by (simp add: minus_mod_eq_div_mult [symmetric])
    finally show ?thesis using assms(4) by (simp add: algebra_simps)
  qed
  show ?thesis using A B by blast
qed

theorem range3_yields_floor_witness:
  "is_int 1 \<and> is_int 12 \<and> (1::int) \<le> 12 \<and> (0::int) < 4 \<and> is_int (12 - 1) \<and>
   range_for RangeIterator_ops (range3 1 12 4) = Some (Inr [1, 5]) \<and>
   1 + int 1 * 4 < (12::int)"
proof -
  have h: "is_int 1" "is_int 12" "(1::int) \<le> 12" "(0::int) < 4" "is_int (12 - 1)"
    by (simp_all add: is_int_def INT_MIN_def INT_MAX_def)
  have m: "map (\<lambda>j. 1 + int j * 4) [0..<nat ((12 - 1) div 4)] = [1, 5]"
    by (simp add: upt_conv_Cons)
  show ?thesis
    using range3_yields_floor [OF h] h unfolding m by simp
qed

subsection \<open>C2: the end cursor of a range\<close>

text \<open>
  \<open>range(10,2,3)\<close>: \<open>(2 - 10) % 3\<close> is \<open>-2\<close> in C++, so the end cursor holds 4, which is
  above \<open>endValue = 2\<close>; the begin cursor moves upwards from 10 and never equals 4, and
  the loop runs until the scalar overflows.
\<close>

theorem range3_end_cursor_above_endValue:
  "range3 10 2 3 = Inr (wrap (RangeIterator 10 3) (RangeIterator 4 3)) \<and>
   \<not> (4::int) \<le> 2 \<and>
   range_for RangeIterator_ops (range3 10 2 3) = Some (Inl (Undefined SignedOverflow))"
proof -
  have h: "is_int 10" "is_int 2" "(3::int) \<noteq> 0" "is_int (2 - 10)" "is_int ((2 - 10) sdiv 3)"
    "(2 - 10) sdiv 3 < (0::int)"
    by (simp_all add: is_int_def INT_MIN_def INT_MAX_def signed_divide_int_def)
  have "(2::int) - (2 - 10) smod 3 = 4"
    by (simp add: smod_int_alt_def)
  then have A: "range3 10 2 3 = Inr (wrap (RangeIterator 10 3) (RangeIterator 4 3))"
    using range3_ok [OF h(1-5)] by simp
  have B: "range_for RangeIterator_ops (range3 10 2 3) = Some (Inl (Undefined SignedOverflow))"
    by (rule range_for_range3_away [OF h])
  show ?thesis using A B by simp
qed

text \<open>
  Claim C2, as the code has it: for \<open>int\<close> values and a nonzero step such that
  \<open>endValue - beginValue\<close> and its quotient by the step are representable, \<open>range\<close>
  builds the end cursor on \<open>endValue - ((endValue - beginValue) % step)\<close>, with the
  truncating remainder of C++. That value is congruent to \<open>beginValue\<close> modulo the step and
  lies between \<open>beginValue\<close> and \<open>endValue\<close>: it is at most \<open>endValue\<close> when
  \<open>beginValue \<le> endValue\<close>, and at least \<open>endValue\<close> when \<open>endValue \<le> beginValue\<close>. When the
  truncated quotient \<open>(endValue - beginValue) / step\<close> is not negative, the begin cursor
  advanced that many times is exactly the end cursor and the traversal ends by equality;
  when it is negative, the traversal never meets the end cursor and ends in signed
  overflow.
\<close>

theorem range3_end_cursor:
  assumes "is_int b" and "is_int e" and "s \<noteq> 0" and "is_int (e - b)"
    and "is_int ((e - b) sdiv s)"
  shows "range3 b e s
           = Inr (wrap (RangeIterator b s) (RangeIterator (e - (e - b) smod s) s)) \<and>
         s dvd (e - (e - b) smod s) - b \<and>
         (b \<le> e \<longrightarrow> b \<le> e - (e - b) smod s \<and> e - (e - b) smod s \<le> e) \<and>
         (e \<le> b \<longrightarrow> e \<le> e - (e - b) smod s \<and> e - (e - b) smod s \<le> b) \<and>
         (0 \<le> (e - b) sdiv s \<longrightarrow>
            advance_times RangeIterator_incr (nat ((e - b) sdiv s)) (RangeIterator b s)
              = Inr (RangeIterator (e - (e - b) smod s) s) \<and>
            range_for RangeIterator_ops (range3 b e s)
              = Some (Inr (map (\<lambda>j. b + int j * s) [0..<nat ((e - b) sdiv s)]))) \<and>
         ((e - b) sdiv s < 0 \<longrightarrow>
            range_for RangeIterator_ops (range3 b e s) = Some (Inl (Undefined SignedOverflow)))"
proof -
  let ?t = "e - (e - b) smod s"
  have A: "range3 b e s = Inr (wrap (RangeIterator b s) (RangeIterator ?t s))"
    by (rule range3_ok [OF assms])
  have B: "s dvd ?t - b" by (simp add: actualEnd_eq)
  have C: "b \<le> e \<longrightarrow> b \<le> ?t \<and> ?t \<le> e"
    using smod_between [OF assms(3), of "e - b"] by auto
  have D: "e \<le> b \<longrightarrow> e \<le> ?t \<and> ?t \<le> b"
    using smod_between [OF assms(3), of "e - b"] by auto
  have E: "advance_times RangeIterator_incr (nat ((e - b) sdiv s)) (RangeIterator b s)
      = Inr (RangeIterator ?t s)" if q: "0 \<le> (e - b) sdiv s"
  proof -
    have t: "?t = b + int (nat ((e - b) sdiv s)) * s" using q by (simp add: actualEnd_eq)
    show ?thesis
      unfolding t
      by (rule advance_times_range) (use assms(1) is_int_actualEnd [OF assms(1,2,3)] t in simp_all)
  qed
  have F: "range_for RangeIterator_ops (range3 b e s)
      = Some (Inr (map (\<lambda>j. b + int j * s) [0..<nat ((e - b) sdiv s)]))"
    if "0 \<le> (e - b) sdiv s"
    by (rule range_for_range3 [OF assms that])
  have G: "range_for RangeIterator_ops (range3 b e s) = Some (Inl (Undefined SignedOverflow))"
    if "(e - b) sdiv s < 0"
    by (rule range_for_range3_away [OF assms that])
  show ?thesis using A B C D E F G by blast
qed

theorem range3_end_cursor_witness:
  "is_int 10 \<and> is_int 2 \<and> (- 3::int) \<noteq> 0 \<and> is_int (2 - 10) \<and> is_int ((2 - 10) sdiv (- 3)) \<and>
   (2::int) \<le> 10 \<and> (0::int) \<le> (2 - 10) sdiv (- 3) \<and>
   range3 10 2 (- 3) = Inr (wrap (RangeIterator 10 (- 3)) (RangeIterator 4 (- 3))) \<and>
   (- 3::int) dvd 4 - 10 \<and> (2::int) \<le> 4 \<and> (4::int) \<le> 10 \<and>
   advance_times RangeIterator_incr 2 (RangeIterator 10 (- 3)) = Inr (RangeIterator 4 (- 3)) \<and>
   range_for RangeIterator_ops (range3 10 2 (- 3)) = Some (Inr [10, 7]) \<and>
   is_int (10 - 2) \<and> is_int ((10 - 2) sdiv (- 3)) \<and> (10 - 2) sdiv (- 3) < (0::int) \<and>
   range3 2 10 (- 3) = Inr (wrap (RangeIterator 2 (- 3)) (RangeIterator 8 (- 3))) \<and>
   (2::int) \<le> 8 \<and> (8::int) \<le> 10 \<and>
   range_for RangeIterator_ops (range3 2 10 (- 3)) = Some (Inl (Undefined SignedOverflow))"
proof -
  have h: "is_int 10" "is_int 2" "(- 3::int) \<noteq> 0" "is_int (2 - 10)" "is_int ((2 - 10) sdiv (- 3))"
    by (simp_all add: is_int_def INT_MIN_def INT_MAX_def signed_divide_int_def)
  have k: "is_int 2" "is_int 10" "(- 3::int) \<noteq> 0" "is_int (10 - 2)" "is_int ((10 - 2) sdiv (- 3))"
    by (simp_all add: is_int_def INT_MIN_def INT_MAX_def signed_divide_int_def)
  have q: "(2 - 10) sdiv (- 3) = (2::int)" by (simp add: signed_divide_int_def)
  have q': "(10 - 2) sdiv (- 3) = (- 2::int)" by (simp add: signed_divide_int_def)
  have r: "(2::int) - (2 - 10) smod (- 3) = 4" by (simp add: smod_int_alt_def)
  have r': "(10::int) - (10 - 2) smod (- 3) = 8" by (simp add: smod_int_alt_def)
  have m: "map (\<lambda>j. 10 + int j * (- 3)) [0..<nat 2] = [10, 7]"
    by (simp add: upt_conv_Cons)
  note a = range3_end_cursor [OF h, unfolded q r m]
  note b = range3_end_cursor [OF k, unfolded q' r']
  show ?thesis
    using a b h k unfolding q q' by auto
qed

subsection \<open>C3: zip\<close>

text \<open>
  Claim C3: \<open>zip\<close> wraps two cursors that hold the tuples of the arguments' begin and end
  cursors. Every \<open>++\<close> of such a cursor succeeds exactly when every sub-cursor can be
  incremented, and then each sub-cursor has been incremented once, in place; \<open>*\<close> yields the
  values of the sub-cursors in argument order, and leaves in the tuple each sub-cursor as
  its own \<open>*\<close> leaves it, which for container iterators is unchanged; two such
  cursors are equal exactly when their last sub-cursors are, so the loop ends when the
  cursor of the last-listed sequence reaches that sequence's end. For standard containers
  that are all at least as long as the last one, the traversal yields, for each position
  of the last container, the elements of all containers at that position. For
  \<open>A = [10,20,30]\<close> and \<open>B = ['a','b','c']\<close> these are the three pairs, and two pairs when
  \<open>B\<close> has two elements. (The elements of \<open>A\<close> and \<open>B\<close> are embedded into \<open>int + char\<close>.)
\<close>

theorem zip_traversal:
  "zip_it ops args
     = wrap (zip_cursor ops (map beginIterator args)) (zip_cursor ops (map endIterator args)) \<and>
   (CallbackIterator_incr (zip_cursor ops cs) = Inr it' \<longleftrightarrow>
      (\<exists>cs'. it' = zip_cursor ops cs' \<and> list_all2 (\<lambda>c c'. op_incr ops c = Inr c') cs cs')) \<and>
   (fst (Iterator_star (zip_cursor ops cs)) = Inr vs \<longleftrightarrow>
      list_all2 (\<lambda>c v. fst (op_star ops c) = Inr v) cs vs) \<and>
   snd (Iterator_star (zip_cursor ops cs))
     = zip_cursor ops (map (\<lambda>c. snd (op_star ops c)) cs) \<and>
   snd (Iterator_star (zip_cursor StdIterator_ops ss)) = zip_cursor StdIterator_ops ss \<and>
   (cs \<noteq> [] \<and> ds \<noteq> [] \<longrightarrow>
      Iterator_eq (zip_cursor ops cs) (zip_cursor ops ds) = op_eq ops (last cs) (last ds)) \<and>
   (xss \<noteq> [] \<and> (\<forall>xs \<in> set xss. length (last xss) \<le> length xs) \<longrightarrow>
      for_each CallbackIterator_ops (zip_it StdIterator_ops (map std_vector xss))
        = Some (Inr (map (\<lambda>j. map (\<lambda>xs. xs ! j) xss) [0..<length (last xss)]))) \<and>
   for_each CallbackIterator_ops
      (zip_it StdIterator_ops
        [std_vector [Inl 10, Inl 20, Inl (30::int)],
         std_vector [Inr CHR ''a'', Inr CHR ''b'', Inr CHR ''c''] ])
     = Some (Inr [ [Inl 10, Inr CHR ''a''], [Inl 20, Inr CHR ''b''], [Inl 30, Inr CHR ''c''] ]) \<and>
   for_each CallbackIterator_ops
      (zip_it StdIterator_ops
        [std_vector [Inl 10, Inl 20, Inl (30::int)],
         std_vector [Inr CHR ''a'', Inr CHR ''b''] ])
     = Some (Inr [ [Inl 10, Inr CHR ''a''], [Inl 20, Inr CHR ''b''] ])"
proof -
  have A: "zip_it ops args
     = wrap (zip_cursor ops (map beginIterator args)) (zip_cursor ops (map endIterator args))"
    by (rule zip_it_cursors)
  have B: "CallbackIterator_incr (zip_cursor ops cs) = Inr it' \<longleftrightarrow>
      (\<exists>cs'. it' = zip_cursor ops cs' \<and> list_all2 (\<lambda>c c'. op_incr ops c = Inr c') cs cs')"
    by (auto simp: zip_cursor_incr tuple_each_Inr_iff [symmetric] split: sum.splits)
  have C: "fst (Iterator_star (zip_cursor ops cs)) = Inr vs \<longleftrightarrow>
      list_all2 (\<lambda>c v. fst (op_star ops c) = Inr v) cs vs"
    by (simp add: zip_cursor_star tuple_each_Inr_iff)
  have C': "snd (Iterator_star (zip_cursor ops cs))
     = zip_cursor ops (map (\<lambda>c. snd (op_star ops c)) cs)"
    by (simp add: zip_cursor_star)
  have C'': "snd (Iterator_star (zip_cursor StdIterator_ops ss)) = zip_cursor StdIterator_ops ss"
    by (simp add: zip_cursor_star map_snd_star_id StdIterator_ops_sel StdIterator_star_snd)
  have D: "cs \<noteq> [] \<and> ds \<noteq> [] \<longrightarrow>
      Iterator_eq (zip_cursor ops cs) (zip_cursor ops ds) = op_eq ops (last cs) (last ds)"
    by (simp add: zip_cursor_eq last_match_last)
  have E: "xss \<noteq> [] \<and> (\<forall>xs \<in> set xss. length (last xss) \<le> length xs) \<longrightarrow>
      for_each CallbackIterator_ops (zip_it StdIterator_ops (map std_vector xss))
        = Some (Inr (map (\<lambda>j. map (\<lambda>xs. xs ! j) xss) [0..<length (last xss)]))"
    using for_each_zip_std [of xss] by blast
  have F: "for_each CallbackIterator_ops
      (zip_it StdIterator_ops
        [std_vector [Inl 10, Inl 20, Inl (30::int)],
         std_vector [Inr CHR ''a'', Inr CHR ''b'', Inr CHR ''c''] ])
     = Some (Inr [ [Inl 10, Inr CHR ''a''], [Inl 20, Inr CHR ''b''], [Inl 30, Inr CHR ''c''] ])"
    by code_simp
  have G: "for_each CallbackIterator_ops
      (zip_it StdIterator_ops
        [std_vector [Inl 10, Inl 20, Inl (30::int)],
         std_vector [Inr CHR ''a'', Inr CHR ''b''] ])
     = Some (Inr [ [Inl 10, Inr CHR ''a''], [Inl 20, Inr CHR ''b''] ])"
    by code_simp
  show ?thesis
    using A B C C' C'' D E F G by (intro conjI)
qed

theorem zip_traversal_witness:
  "[StdIterator [7, 8] 0, StdIterator [9::nat] 0] \<noteq> [] \<and>
   [StdIterator [7, 8] 2, StdIterator [9::nat] 1] \<noteq> [] \<and>
   \<not> Iterator_eq (zip_cursor StdIterator_ops [StdIterator [7, 8] 0, StdIterator [9::nat] 0])
       (zip_cursor StdIterator_ops [StdIterator [7, 8] 2, StdIterator [9] 1]) \<and>
   [ [7, 8], [9::nat] ] \<noteq> [] \<and>
   length (last [ [7, 8], [9::nat] ]) \<le> length [7, 8::nat] \<and>
   length (last [ [7, 8], [9::nat] ]) \<le> length [9::nat] \<and>
   for_each CallbackIterator_ops (zip_it StdIterator_ops (map std_vector [ [7, 8], [9::nat] ]))
     = Some (Inr [ [7, 9] ])"
proof -
  let ?cs = "[StdIterator [7, 8] 0, StdIterator [9::nat] 0]"
  let ?ds = "[StdIterator [7, 8] 2, StdIterator [9::nat] 1]"
  let ?xss = "[ [7, 8], [9::nat] ]"
  have h1: "?cs \<noteq> [] \<and> ?ds \<noteq> []" by simp
  have h2: "?xss \<noteq> [] \<and> (\<forall>xs \<in> set ?xss. length (last ?xss) \<le> length xs)" by simp
  note d = zip_traversal [where ops = StdIterator_ops and cs = ?cs and ds = ?ds,
      THEN conjunct2, THEN conjunct2, THEN conjunct2, THEN conjunct2, THEN conjunct2,
      THEN conjunct1, THEN mp, OF h1]
  note e = zip_traversal [where xss = ?xss,
      THEN conjunct2, THEN conjunct2, THEN conjunct2, THEN conjunct2, THEN conjunct2,
      THEN conjunct2, THEN conjunct1, THEN mp, OF h2]
  have d': "\<not> Iterator_eq (zip_cursor StdIterator_ops ?cs) (zip_cursor StdIterator_ops ?ds)"
    unfolding d by (simp add: StdIterator_ops_sel StdIterator_eq_def)
  have e': "for_each CallbackIterator_ops (zip_it StdIterator_ops (map std_vector ?xss))
     = Some (Inr [ [7, 9] ])"
    using e by simp
  show ?thesis
    using d' e' by simp
qed

subsection \<open>C4: the one error condition\<close>

text \<open>
  \<open>range(0, INT_MIN, -1)\<close> has a nonzero step, and every operand is an \<open>int\<close>; the
  remainder \<open>INT_MIN % -1\<close> that \<open>range\<close> computes is undefined, because the quotient is not
  representable. The construction fails although the step is well-formed.
\<close>

theorem range3_nonzero_step_undefined:
  "(- 1::int) \<noteq> 0 \<and> is_int 0 \<and> is_int (- 2147483648) \<and>
   range3 0 (- 2147483648) (- 1) = Inl (Undefined SignedOverflow)"
  by (simp add: range3_def int_sub_def int_rem_def is_int_def INT_MIN_def INT_MAX_def)

text \<open>
  Claim C4, as the code has it: a cursor without a held value raises
  \<open>UndefinedIteratorException\<close> when it is dereferenced, and again at every further attempt;
  a cursor with a held value returns what its dereferencer returns. No other operation
  raises the exception: not \<open>advance\<close> and \<open>++\<close> of an arithmetic-progression cursor, not the
  increment strategies (the tuple increment only passes on what the sub-cursors' \<open>++\<close>
  raise), not \<open>range\<close>. Equality never fails: its two reads through the optionals happen
  only when both hold a value. Liveness is the presence of the held value, and the
  constructors store their arguments; \<open>zip\<close> stores the tuples of begin and end cursors.
  \<open>advance\<close> and \<open>range\<close> raise nothing, but they are defined only under conditions that the
  code does not test: \<open>advance\<close> of an arithmetic-progression cursor and of
  \<open>increment::ByValue\<close> returns exactly when the value is present and the sum is
  representable, the tuple increment exactly when the tuple is present and every
  sub-cursor's \<open>++\<close> returns, and \<open>range\<close> exactly when the step is nonzero and
  \<open>endValue - beginValue\<close> and its truncated quotient by the step are representable.
\<close>

theorem dereference_is_the_only_raise:
  "(current it = None \<longrightarrow>
      fst (Iterator_star it) = Inl UndefinedIteratorException \<and>
      fst (Iterator_star (snd (Iterator_star it))) = Inl UndefinedIteratorException) \<and>
   (\<forall>v. current it = Some v \<longrightarrow> fst (Iterator_star it) = fst (dereferencer it v)) \<and>
   RangeIterator_advance r value \<noteq> Inl UndefinedIteratorException \<and>
   RangeIterator_incr r \<noteq> Inl UndefinedIteratorException \<and>
   increment_ByValue A value \<noteq> Inl UndefinedIteratorException \<and>
   ((\<forall>c. incr c \<noteq> Inl UndefinedIteratorException) \<longrightarrow>
      increment_ByTupleIncrement incr tv \<noteq> Inl UndefinedIteratorException) \<and>
   range3 b e s \<noteq> Inl UndefinedIteratorException \<and>
   Iterator_eq_reads it other = Inr (Iterator_eq it other) \<and>
   (Iterator_bool it \<longleftrightarrow> current it \<noteq> None) \<and>
   current (CallbackIterator first cb d cmp) = first \<and>
   current (RangeIterator start inc) = Some start \<and>
   increment (RangeIterator start inc) = inc \<and>
   beginIterator (wrap p q) = p \<and> endIterator (wrap p q) = q \<and>
   current (beginIterator (zip_it ops args)) = Some (map beginIterator args) \<and>
   current (endIterator (zip_it ops args)) = Some (map endIterator args) \<and>
   (RangeIterator_advance r value = Inr value' \<longleftrightarrow>
      (\<exists>x. value = Some x \<and> is_int (x + increment r) \<and> value' = Some (x + increment r))) \<and>
   (increment_ByValue A value = Inr value' \<longleftrightarrow>
      (\<exists>x. value = Some x \<and> is_int (x + A) \<and> value' = Some (x + A))) \<and>
   (increment_ByTupleIncrement incr tv = Inr tv' \<longleftrightarrow>
      (\<exists>cs cs'. tv = Some cs \<and> tv' = Some cs' \<and> list_all2 (\<lambda>c c'. incr c = Inr c') cs cs')) \<and>
   (is_int b \<and> is_int e \<longrightarrow>
      ((\<exists>w. range3 b e s = Inr w) \<longleftrightarrow>
         s \<noteq> 0 \<and> is_int (e - b) \<and> is_int ((e - b) sdiv s)))"
proof -
  have A: "current it = None \<longrightarrow>
      fst (Iterator_star it) = Inl UndefinedIteratorException \<and>
      fst (Iterator_star (snd (Iterator_star it))) = Inl UndefinedIteratorException"
    by (simp add: Iterator_star_def Iterator_bool_def)
  have B: "\<forall>v. current it = Some v \<longrightarrow> fst (Iterator_star it) = fst (dereferencer it v)"
    by (simp add: Iterator_star_def Iterator_bool_def split: prod.splits)
  have C: "RangeIterator_advance r value \<noteq> Inl UndefinedIteratorException"
    by (simp add: RangeIterator_advance_def int_add_def split: option.splits)
  have D: "RangeIterator_incr r \<noteq> Inl UndefinedIteratorException"
    by (simp add: RangeIterator_incr_def Iterator_incr_def RangeIterator_advance_def int_add_def
        split: sum.splits option.splits)
  have E: "increment_ByValue A value \<noteq> Inl UndefinedIteratorException"
    by (simp add: increment_ByValue_def int_add_def split: option.splits)
  have F: "(\<forall>c. incr c \<noteq> Inl UndefinedIteratorException) \<longrightarrow>
      increment_ByTupleIncrement incr tv \<noteq> Inl UndefinedIteratorException"
    by (auto simp: increment_ByTupleIncrement_def split: option.splits sum.splits
        dest: tuple_each_error)
  have G: "range3 b e s \<noteq> Inl UndefinedIteratorException"
    by (simp add: range3_def int_sub_def int_rem_def)
  have H: "Iterator_eq_reads it other = Inr (Iterator_eq it other)"
    by (simp add: Iterator_eq_reads_def Iterator_eq_def Iterator_bool_def optional_star_def
        split: option.splits)
  have I: "Iterator_bool it \<longleftrightarrow> current it \<noteq> None"
    by (simp add: Iterator_bool_def split: option.splits)
  have J: "current (CallbackIterator first cb d cmp) = first"
    by (simp add: CallbackIterator_def)
  have K: "current (RangeIterator start inc) = Some start"
    by (simp add: RangeIterator_def)
  have K': "increment (RangeIterator start inc) = inc"
    by (simp add: RangeIterator_def)
  have L: "beginIterator (wrap p q) = p" and L': "endIterator (wrap p q) = q"
    by (simp_all add: wrap_def)
  have M: "current (beginIterator (zip_it ops args)) = Some (map beginIterator args)"
    by (simp add: zip_it_def Let_def wrap_def CallbackIterator_def)
  have M': "current (endIterator (zip_it ops args)) = Some (map endIterator args)"
    by (simp add: zip_it_def Let_def wrap_def CallbackIterator_def)
  have N: "RangeIterator_advance r value = Inr value' \<longleftrightarrow>
      (\<exists>x. value = Some x \<and> is_int (x + increment r) \<and> value' = Some (x + increment r))"
    by (auto simp: RangeIterator_advance_def int_add_def split: option.splits)
  have O: "increment_ByValue A value = Inr value' \<longleftrightarrow>
      (\<exists>x. value = Some x \<and> is_int (x + A) \<and> value' = Some (x + A))"
    by (auto simp: increment_ByValue_def int_add_def split: option.splits)
  have P: "increment_ByTupleIncrement incr tv = Inr tv' \<longleftrightarrow>
      (\<exists>cs cs'. tv = Some cs \<and> tv' = Some cs' \<and> list_all2 (\<lambda>c c'. incr c = Inr c') cs cs')"
    by (auto simp: increment_ByTupleIncrement_def tuple_each_Inr_iff [symmetric]
        split: option.splits sum.splits)
  have Q: "is_int b \<and> is_int e \<longrightarrow>
      ((\<exists>w. range3 b e s = Inr w) \<longleftrightarrow>
         s \<noteq> 0 \<and> is_int (e - b) \<and> is_int ((e - b) sdiv s))"
  proof (intro impI iffI)
    assume "is_int b \<and> is_int e" and "\<exists>w. range3 b e s = Inr w"
    then show "s \<noteq> 0 \<and> is_int (e - b) \<and> is_int ((e - b) sdiv s)"
      by (auto simp: range3_def int_sub_def int_rem_def split: if_splits)
  next
    assume "is_int b \<and> is_int e" and "s \<noteq> 0 \<and> is_int (e - b) \<and> is_int ((e - b) sdiv s)"
    then show "\<exists>w. range3 b e s = Inr w"
      using range3_ok [of b e s] by blast
  qed
  show ?thesis
    using A B C D E F G H I J K K' L L' M M' N O P Q by (intro conjI)
qed

theorem dereference_is_the_only_raise_witness:
  "current (CallbackIterator None (increment_ByValue 1) dereference_ByValue compare_ByValue
      :: (int, int) CallbackIterator) = None \<and>
   fst (Iterator_star (CallbackIterator None (increment_ByValue 1) dereference_ByValue compare_ByValue
      :: (int, int) CallbackIterator)) = Inl UndefinedIteratorException \<and>
   current (RangeIterator 3 1) = Some 3 \<and>
   fst (Iterator_star (RangeIterator 3 1)) = Inr 3 \<and>
   (\<forall>c :: nat StdIterator. StdIterator_incr c \<noteq> Inl UndefinedIteratorException) \<and>
   increment_ByTupleIncrement StdIterator_incr (Some [StdIterator [1::nat] 0])
     \<noteq> Inl UndefinedIteratorException \<and>
   is_int 2 \<and> is_int 10 \<and> (3::int) \<noteq> 0 \<and> is_int (10 - 2) \<and> is_int ((10 - 2) sdiv 3) \<and>
   (\<exists>w. range3 2 10 3 = Inr w)"
proof -
  let ?it = "CallbackIterator None (increment_ByValue 1) dereference_ByValue compare_ByValue
      :: (int, int) CallbackIterator"
  have h1: "current ?it = None" by (simp add: CallbackIterator_def)
  have h2: "current (RangeIterator 3 1) = Some 3" by (simp add: RangeIterator_def)
  have h3: "\<forall>c :: nat StdIterator. StdIterator_incr c \<noteq> Inl UndefinedIteratorException"
    by (simp add: StdIterator_incr_def)
  have h6: "is_int 2 \<and> is_int 10"
    by (simp add: is_int_def INT_MIN_def INT_MAX_def)
  have h7: "(3::int) \<noteq> 0 \<and> is_int (10 - 2) \<and> is_int ((10 - 2) sdiv 3)"
    by (simp add: is_int_def INT_MIN_def INT_MAX_def signed_divide_int_def)
  have d: "fst (dereferencer (RangeIterator 3 1) 3) = Inr 3"
    by (simp add: RangeIterator_def dereference_ByValue_def)
  note t1 = dereference_is_the_only_raise [where it = ?it, THEN conjunct1, THEN mp, OF h1,
      THEN conjunct1]
  note t2 = dereference_is_the_only_raise [where it = "RangeIterator 3 1", THEN conjunct2,
      THEN conjunct1, THEN spec, THEN mp, OF h2, unfolded d]
  note t3 = dereference_is_the_only_raise [where incr = StdIterator_incr
        and tv = "Some [StdIterator [1::nat] 0]",
      THEN conjunct2, THEN conjunct2, THEN conjunct2, THEN conjunct2, THEN conjunct2,
      THEN conjunct1, THEN mp, OF h3]
  note t6 = dereference_is_the_only_raise [where b = 2 and e = 10 and s = 3,
      THEN conjunct2, THEN conjunct2, THEN conjunct2, THEN conjunct2, THEN conjunct2,
      THEN conjunct2, THEN conjunct2, THEN conjunct2, THEN conjunct2, THEN conjunct2,
      THEN conjunct2, THEN conjunct2, THEN conjunct2, THEN conjunct2, THEN conjunct2,
      THEN conjunct2, THEN conjunct2, THEN conjunct2, THEN conjunct2, THEN mp, OF h6,
      THEN iffD2, OF h7]
  show ?thesis
    using h1 t1 h2 t2 h3 t3 h6 h7 t6 by blast
qed

subsection \<open>C5: equality of cursors\<close>

text \<open>
  Claim C5: two cursors without a held value are equal; a cursor without and a cursor
  with a held value are different, in either order; two cursors with held values are
  equal exactly when the comparison strategy of the left one says so. When one of the
  two has no held value the result does not depend on the comparison strategy at all:
  the strategy is not consulted.
\<close>

theorem Iterator_eq_cases:
  "Iterator_eq a b =
     (case current a of
        None \<Rightarrow> (case current b of None \<Rightarrow> True | Some _ \<Rightarrow> False)
      | Some x \<Rightarrow> (case current b of None \<Rightarrow> False | Some y \<Rightarrow> compare a x y)) \<and>
   (current a = None \<and> current b = None \<longrightarrow> Iterator_eq a b) \<and>
   (current a = None \<and> current b \<noteq> None \<longrightarrow> \<not> Iterator_eq a b) \<and>
   (current a \<noteq> None \<and> current b = None \<longrightarrow> \<not> Iterator_eq a b) \<and>
   (current a = None \<or> current b = None \<longrightarrow>
      Iterator_eq (a\<lparr>compare := c\<rparr>) b = Iterator_eq a b)"
  by (auto simp: Iterator_eq_def Iterator_bool_def split: option.splits)

theorem Iterator_eq_cases_witness:
  "current (CallbackIterator None (increment_ByValue 1) dereference_ByValue compare_Never
      :: (int, int) CallbackIterator) = None \<and>
   current (RangeIterator 3 1) \<noteq> None \<and>
   current ((RangeIterator 3 1)\<lparr>current := None\<rparr>) = None \<and>
   Iterator_eq (CallbackIterator None (increment_ByValue 1) dereference_ByValue compare_Never
      :: (int, int) CallbackIterator)
     (CallbackIterator None (increment_ByValue 1) dereference_ByValue compare_Never) \<and>
   \<not> Iterator_eq ((RangeIterator 3 1)\<lparr>current := None\<rparr>) (RangeIterator 3 1) \<and>
   \<not> Iterator_eq (RangeIterator 3 1) ((RangeIterator 3 1)\<lparr>current := None\<rparr>) \<and>
   Iterator_eq ((RangeIterator 3 1)\<lparr>compare := compare_Never\<rparr>) ((RangeIterator 3 1)\<lparr>current := None\<rparr>)
     = Iterator_eq (RangeIterator 3 1) ((RangeIterator 3 1)\<lparr>current := None\<rparr>)"
proof -
  let ?x = "CallbackIterator None (increment_ByValue 1) dereference_ByValue compare_Never
      :: (int, int) CallbackIterator"
  let ?l = "RangeIterator 3 1"
  let ?n = "(RangeIterator 3 1)\<lparr>current := None\<rparr>"
  have x: "current ?x = None" by (simp add: CallbackIterator_def)
  have l: "current ?l \<noteq> None" by (simp add: RangeIterator_def)
  have n: "current ?n = None" by simp
  note a = Iterator_eq_cases [where a = ?x and b = ?x, THEN conjunct2, THEN conjunct1, THEN mp,
      OF conjI, OF x x]
  note b = Iterator_eq_cases [where a = ?n and b = ?l, THEN conjunct2, THEN conjunct2,
      THEN conjunct1, THEN mp, OF conjI, OF n l]
  note c = Iterator_eq_cases [where a = ?l and b = ?n, THEN conjunct2, THEN conjunct2,
      THEN conjunct2, THEN conjunct1, THEN mp, OF conjI, OF l n]
  note d = Iterator_eq_cases [where a = ?l and b = ?n and c = compare_Never, THEN conjunct2,
      THEN conjunct2, THEN conjunct2, THEN conjunct2, THEN mp, OF disjI2, OF n]
  show ?thesis
    using x l n a b c d by (intro conjI)
qed

subsection \<open>C6: advancing a cursor without a held value\<close>

text \<open>
  A default-constructed \<open>CallbackIterator<int, increment::ByValue<1>>\<close> has no held value;
  \<open>++\<close> on it executes \<open>*v = *v + 1\<close> on the empty optional, which is undefined: the call
  is not well-defined and does not return an exhausted cursor.
\<close>

theorem advance_on_exhausted_cursor_undefined:
  "CallbackIterator_incr
     (CallbackIterator None (increment_ByValue 1) dereference_ByValue compare_ByValue
        :: (int, int) CallbackIterator)
   = Inl (Undefined EmptyOptionalAccess)"
  by (simp add: CallbackIterator_incr_def Iterator_incr_def CallbackIterator_advance_def
      CallbackIterator_def increment_ByValue_def)

text \<open>
  Claim C6, as the code has it: no advance operation of the header tests the optional.
  \<open>RangeIterator::advance\<close>, \<open>increment::ByValue\<close> and \<open>increment::ByTupleIncrement\<close> read
  through it, so on an empty optional they are undefined; \<open>++\<close> of a \<open>CallbackIterator\<close> is
  whatever its callback does with the optional it is given. On a held value (and without
  signed overflow) the first two add the increment and keep the value present, and the
  tuple increment succeeds exactly when every sub-cursor can be incremented.
\<close>

theorem advance_needs_held_value:
  "RangeIterator_advance r None = Inl (Undefined EmptyOptionalAccess) \<and>
   increment_ByValue A None = Inl (Undefined EmptyOptionalAccess) \<and>
   increment_ByTupleIncrement incr None = Inl (Undefined EmptyOptionalAccess) \<and>
   CallbackIterator_incr it =
     (case callback it (current it) of Inl err \<Rightarrow> Inl err | Inr v \<Rightarrow> Inr (it\<lparr>current := v\<rparr>)) \<and>
   (is_int (x + increment r) \<longrightarrow>
      RangeIterator_advance r (Some x) = Inr (Some (x + increment r))) \<and>
   (is_int (x + A) \<longrightarrow> increment_ByValue A (Some x) = Inr (Some (x + A))) \<and>
   (increment_ByTupleIncrement incr (Some cs) = Inr v' \<longleftrightarrow>
      (\<exists>cs'. v' = Some cs' \<and> list_all2 (\<lambda>c c'. incr c = Inr c') cs cs'))"
proof -
  have A: "RangeIterator_advance r None = Inl (Undefined EmptyOptionalAccess)"
    by (simp add: RangeIterator_advance_def)
  have B: "increment_ByValue A None = Inl (Undefined EmptyOptionalAccess)"
    by (simp add: increment_ByValue_def)
  have C: "increment_ByTupleIncrement incr None = Inl (Undefined EmptyOptionalAccess)"
    by (simp add: increment_ByTupleIncrement_def)
  have E: "CallbackIterator_incr it =
     (case callback it (current it) of Inl err \<Rightarrow> Inl err | Inr v \<Rightarrow> Inr (it\<lparr>current := v\<rparr>))"
    by (simp add: CallbackIterator_incr_def Iterator_incr_def CallbackIterator_advance_def)
  have F: "is_int (x + increment r) \<longrightarrow>
      RangeIterator_advance r (Some x) = Inr (Some (x + increment r))"
    by (simp add: RangeIterator_advance_def int_add_def)
  have G: "is_int (x + A) \<longrightarrow> increment_ByValue A (Some x) = Inr (Some (x + A))"
    by (simp add: increment_ByValue_def int_add_def)
  have H: "increment_ByTupleIncrement incr (Some cs) = Inr v' \<longleftrightarrow>
      (\<exists>cs'. v' = Some cs' \<and> list_all2 (\<lambda>c c'. incr c = Inr c') cs cs')"
    by (auto simp: increment_ByTupleIncrement_def tuple_each_Inr_iff [symmetric] split: sum.splits)
  show ?thesis
    using A B C E F G H by (intro conjI)
qed

theorem advance_needs_held_value_witness:
  "is_int (4 + increment (RangeIterator 0 3)) \<and>
   RangeIterator_advance (RangeIterator 0 3) (Some 4) = Inr (Some 7) \<and>
   is_int (4 + 1) \<and>
   increment_ByValue 1 (Some 4) = Inr (Some 5)"
proof -
  have h1: "is_int (4 + increment (RangeIterator 0 3))"
    by (simp add: RangeIterator_def is_int_def INT_MIN_def INT_MAX_def)
  have h2: "is_int (4 + 1)"
    by (simp add: is_int_def INT_MIN_def INT_MAX_def)
  note a = advance_needs_held_value [of "RangeIterator 0 3" _ _ _ 4,
      THEN conjunct2, THEN conjunct2, THEN conjunct2, THEN conjunct2,
      THEN conjunct1, THEN mp, OF h1]
  note b = advance_needs_held_value [of _ 1 _ _ 4,
      THEN conjunct2, THEN conjunct2, THEN conjunct2, THEN conjunct2, THEN conjunct2,
      THEN conjunct1, THEN mp, OF h2]
  have i: "4 + increment (RangeIterator 0 3) = 7" by (simp add: RangeIterator_def)
  show ?thesis using a b h1 h2 unfolding i by simp
qed

subsection \<open>C7: enumerate\<close>

text \<open>
  The index cursors that \<open>enumerate\<close> puts first in its begin and end tuples are both
  \<open>RangeIterator(0)\<close>, with the default comparison \<open>compare::ByValue\<close> (not
  \<open>compare::Never\<close>): they are equal, and the index pair traversed on its own ends at once
  with no element.
\<close>

theorem enumerate_index_range_is_empty:
  "current (beginIterator (enumerate_it StdIterator_ops (std_vector ''xyz'')))
     = Some [Inl (RangeIterator 0 1), Inr (StdIterator ''xyz'' 0)] \<and>
   current (endIterator (enumerate_it StdIterator_ops (std_vector ''xyz'')))
     = Some [Inl (RangeIterator 0 1), Inr (StdIterator ''xyz'' 3)] \<and>
   compare (RangeIterator 0 1) 0 0 \<and>
   \<not> compare_Never (0::int) 0 \<and>
   Iterator_eq (RangeIterator 0 1) (RangeIterator 0 1) \<and>
   for_each RangeIterator_ops (wrap (RangeIterator 0 1) (RangeIterator 0 1)) = Some (Inr [])"
proof -
  have A: "current (beginIterator (enumerate_it StdIterator_ops (std_vector ''xyz'')))
     = Some [Inl (RangeIterator 0 1), Inr (StdIterator ''xyz'' 0)]"
    by (simp add: enumerate_it_cursors zip_cursor_def CallbackIterator_def wrap_def std_vector_def)
  have B: "current (endIterator (enumerate_it StdIterator_ops (std_vector ''xyz'')))
     = Some [Inl (RangeIterator 0 1), Inr (StdIterator ''xyz'' 3)]"
    by (simp add: enumerate_it_cursors zip_cursor_def CallbackIterator_def wrap_def std_vector_def)
  have C: "compare (RangeIterator 0 1) 0 0"
    by (simp add: RangeIterator_def compare_ByValue_def)
  have D: "\<not> compare_Never (0::int) 0"
    by (simp add: compare_Never_def)
  have E: "Iterator_eq (RangeIterator 0 1) (RangeIterator 0 1)"
    by (simp add: RangeIterator_eq_iff)
  have F: "for_each RangeIterator_ops (wrap (RangeIterator 0 1) (RangeIterator 0 1)) = Some (Inr [])"
    unfolding for_each_def wrap_def
    by (subst for_loop.simps) (simp add: RangeIterator_ops_sel RangeIterator_eq_iff)
  show ?thesis
    using A B C D E F by (intro conjI)
qed

text \<open>
  Claim C7, as the code has it: \<open>enumerate(t)\<close> zips an index cursor pair, begin and end
  both \<open>RangeIterator(0)\<close> with increment 1 and the default by-value comparison, with
  the sequence listed last. The comparison of the index cursors is never consulted: two
  cursors of \<open>enumerate\<close> are equal exactly when their sequence cursors are, whatever the
  index cursors hold, so the end of the sequence alone ends the traversal. For a standard
  container of at most \<open>INT_MAX\<close> elements the traversal yields the pairs
  \<open>[index, value]\<close> in order; \<open>enumerate(['x','y','z'])\<close> yields
  \<open>[(0,'x'),(1,'y'),(2,'z')]\<close>.
\<close>

theorem enumerate_traversal:
  "enumerate_it ops t
     = wrap (zip_cursor (sum_ops RangeIterator_ops ops) [Inl (RangeIterator 0 1), Inr (beginIterator t)])
            (zip_cursor (sum_ops RangeIterator_ops ops) [Inl (RangeIterator 0 1), Inr (endIterator t)]) \<and>
   compare (RangeIterator 0 1) = compare_ByValue \<and>
   Iterator_eq (zip_cursor (sum_ops RangeIterator_ops ops) [Inl a, Inr c])
               (zip_cursor (sum_ops RangeIterator_ops ops) [Inl b, Inr d]) = op_eq ops c d \<and>
   (is_int (int (length xs)) \<longrightarrow>
      for_each CallbackIterator_ops (enumerate_it StdIterator_ops (std_vector xs))
        = Some (Inr (map (\<lambda>j. [Inl (int j), Inr (xs ! j)]) [0..<length xs]))) \<and>
   for_each CallbackIterator_ops (enumerate_it StdIterator_ops (std_vector ''xyz''))
     = Some (Inr [ [Inl 0, Inr CHR ''x''], [Inl 1, Inr CHR ''y''], [Inl 2, Inr CHR ''z''] ])"
proof -
  have A: "enumerate_it ops t
     = wrap (zip_cursor (sum_ops RangeIterator_ops ops) [Inl (RangeIterator 0 1), Inr (beginIterator t)])
            (zip_cursor (sum_ops RangeIterator_ops ops) [Inl (RangeIterator 0 1), Inr (endIterator t)])"
    by (rule enumerate_it_cursors)
  have B: "compare (RangeIterator 0 1) = compare_ByValue"
    by (simp add: RangeIterator_def)
  have C: "Iterator_eq (zip_cursor (sum_ops RangeIterator_ops ops) [Inl a, Inr c])
               (zip_cursor (sum_ops RangeIterator_ops ops) [Inl b, Inr d]) = op_eq ops c d"
    by (rule enumerate_eq_last)
  have D: "is_int (int (length xs)) \<longrightarrow>
      for_each CallbackIterator_ops (enumerate_it StdIterator_ops (std_vector xs))
        = Some (Inr (map (\<lambda>j. [Inl (int j), Inr (xs ! j)]) [0..<length xs]))"
    using for_each_enumerate_std [of xs] by blast
  have E: "for_each CallbackIterator_ops (enumerate_it StdIterator_ops (std_vector ''xyz''))
     = Some (Inr [ [Inl 0, Inr CHR ''x''], [Inl 1, Inr CHR ''y''], [Inl 2, Inr CHR ''z''] ])"
    by code_simp
  show ?thesis
    using A B C D E by (intro conjI)
qed

theorem enumerate_traversal_witness:
  "is_int (int (length [True, False])) \<and>
   for_each CallbackIterator_ops (enumerate_it StdIterator_ops (std_vector [True, False]))
     = Some (Inr [ [Inl 0, Inr True], [Inl 1, Inr False] ])"
proof -
  have h: "is_int (int (length [True, False]))"
    by (simp add: is_int_def INT_MIN_def INT_MAX_def)
  have t: "map (\<lambda>j. [Inl (int j), Inr ([True, False] ! j)]) [0..<length [True, False] ]
      = [ [Inl 0, Inr True], [Inl 1, Inr False] ]"
    by (simp add: upt_conv_Cons)
  note d = enumerate_traversal [of StdIterator_ops "std_vector [True, False]" _ _ _ _ "[True, False]",
      THEN conjunct2, THEN conjunct2, THEN conjunct2, THEN conjunct1, THEN mp, OF h]
  show ?thesis
    using d h unfolding t by simp
qed

subsection \<open>C8: an arithmetic-progression cursor stays live\<close>

text \<open>
  A live cursor that holds \<open>INT_MAX\<close> with increment 1: its advance does not add the
  increment and does not leave a live cursor; the addition overflows, which is undefined.
\<close>

theorem RangeIterator_advance_at_INT_MAX:
  "Iterator_bool (RangeIterator 2147483647 1) \<and>
   RangeIterator_incr (RangeIterator 2147483647 1) = Inl (Undefined SignedOverflow)"
  by (simp add: Iterator_bool_def RangeIterator_incr_def Iterator_incr_def
      RangeIterator_advance_def RangeIterator_def int_add_def is_int_def INT_MIN_def INT_MAX_def)

text \<open>
  Claim C8, as the code has it: on a held value \<open>x\<close>, \<open>advance\<close> of an arithmetic-progression
  cursor stores \<open>x + increment\<close> when that sum is representable in \<open>int\<close>, and is undefined by
  signed overflow otherwise; no advance, on any optional, returns with the optional
  emptied. Whenever \<open>n\<close> advances of a live cursor return, the cursor still holds a value,
  namely \<open>x + n * increment\<close>. For a cursor built on a representable \<open>x\<close>, \<open>n\<close> advances return
  exactly when \<open>x + n * increment\<close> is representable, and the result is then the cursor on
  that value. A cursor built by the constructor is live.
\<close>

theorem RangeIterator_stays_live:
  "RangeIterator_advance r (Some x)
     = (if is_int (x + increment r) then Inr (Some (x + increment r))
        else Inl (Undefined SignedOverflow)) \<and>
   RangeIterator_advance r value \<noteq> Inr None \<and>
   (current r = Some x \<and> advance_times RangeIterator_incr n r = Inr r' \<longrightarrow>
      current r' = Some (x + int n * increment r) \<and> Iterator_bool r') \<and>
   (is_int x \<longrightarrow>
      (advance_times RangeIterator_incr n (RangeIterator x s) = Inr r' \<longleftrightarrow>
         is_int (x + int n * s) \<and> r' = RangeIterator (x + int n * s) s)) \<and>
   Iterator_bool (RangeIterator x s)"
proof -
  have A: "RangeIterator_advance r (Some x)
     = (if is_int (x + increment r) then Inr (Some (x + increment r))
        else Inl (Undefined SignedOverflow))"
    by (simp add: RangeIterator_advance_def int_add_def)
  have B: "RangeIterator_advance r value \<noteq> Inr None"
    by (simp add: RangeIterator_advance_def int_add_def split: option.splits)
  have C: "current r = Some x \<and> advance_times RangeIterator_incr n r = Inr r' \<longrightarrow>
      current r' = Some (x + int n * increment r) \<and> Iterator_bool r'"
    using advance_times_live [of r x n r'] by (auto simp: Iterator_bool_def)
  have D: "is_int x \<longrightarrow>
      (advance_times RangeIterator_incr n (RangeIterator x s) = Inr r' \<longleftrightarrow>
         is_int (x + int n * s) \<and> r' = RangeIterator (x + int n * s) s)"
    using advance_times_range [of x n s] advance_times_range_returns [of x n s r'] by auto
  have E: "Iterator_bool (RangeIterator x s)"
    by (simp add: Iterator_bool_def RangeIterator_def)
  show ?thesis
    using A B C D E by (intro conjI)
qed

theorem RangeIterator_stays_live_witness:
  "is_int 5 \<and> is_int (5 + int 3 * 2) \<and>
   advance_times RangeIterator_incr 3 (RangeIterator 5 2) = Inr (RangeIterator 11 2) \<and>
   current (RangeIterator 5 2) = Some 5 \<and>
   current (RangeIterator 11 2) = Some (5 + int 3 * increment (RangeIterator 5 2)) \<and>
   Iterator_bool (RangeIterator 11 2)"
proof -
  have h1: "is_int 5" by (simp add: is_int_def INT_MIN_def INT_MAX_def)
  have h2: "is_int (5 + int 3 * 2) \<and> RangeIterator 11 2 = RangeIterator (5 + int 3 * 2) 2"
    by (simp add: is_int_def INT_MIN_def INT_MAX_def)
  note d = RangeIterator_stays_live [where x = 5 and n = 3 and s = 2 and r' = "RangeIterator 11 2",
      THEN conjunct2, THEN conjunct2, THEN conjunct2, THEN conjunct1, THEN mp, OF h1,
      THEN iffD2, OF h2]
  have c: "current (RangeIterator 5 2) = Some 5" by (simp add: RangeIterator_def)
  note f = RangeIterator_stays_live [where r = "RangeIterator 5 2" and x = 5 and n = 3
        and r' = "RangeIterator 11 2",
      THEN conjunct2, THEN conjunct2, THEN conjunct1, THEN mp, OF conjI, OF c d]
  show ?thesis using d f h1 h2 c by blast
qed

subsection \<open>C9: the defaults of range\<close>

text \<open>
  Claim C9: \<open>range(beginValue, endValue)\<close> is \<open>range(beginValue, endValue, 1)\<close> and
  \<open>range(endValue)\<close> is \<open>range(0, endValue)\<close>, so their traversals agree. For
  \<open>beginValue \<le> endValue\<close> with a representable difference the values are
  \<open>beginValue, beginValue + 1, ...\<close> up to \<open>endValue - 1\<close>; \<open>range(5)\<close> yields
  \<open>[0,1,2,3,4]\<close>.
\<close>

theorem range_defaults:
  "range2 b e = range3 b e 1 \<and>
   range1 e = range2 0 e \<and>
   range_for RangeIterator_ops (range2 b e) = range_for RangeIterator_ops (range3 b e 1) \<and>
   range_for RangeIterator_ops (range1 e) = range_for RangeIterator_ops (range2 0 e) \<and>
   (is_int b \<and> is_int e \<and> b \<le> e \<and> is_int (e - b) \<longrightarrow>
      range_for RangeIterator_ops (range2 b e)
        = Some (Inr (map (\<lambda>j. b + int j) [0..<nat (e - b)]))) \<and>
   (is_int e \<and> 0 \<le> e \<longrightarrow>
      range_for RangeIterator_ops (range1 e) = Some (Inr (map int [0..<nat e]))) \<and>
   range_for RangeIterator_ops (range1 5) = Some (Inr [0, 1, 2, 3, 4])"
proof -
  have A: "range2 b e = range3 b e 1" by (simp add: range2_def)
  have B: "range1 e = range2 0 e" by (simp add: range1_def)
  have C: "range_for RangeIterator_ops (range2 b e)
        = Some (Inr (map (\<lambda>j. b + int j) [0..<nat (e - b)]))"
    if "is_int b" "is_int e" "b \<le> e" "is_int (e - b)" for b e
  proof -
    have "range_for RangeIterator_ops (range3 b e 1)
        = Some (Inr (map (\<lambda>j. b + int j * 1) [0..<nat ((e - b) sdiv 1)]))"
      using that by (intro range_for_range3) simp_all
    then show ?thesis by (simp add: range2_def)
  qed
  have D: "range_for RangeIterator_ops (range1 e) = Some (Inr (map int [0..<nat e]))"
    if "is_int e" "0 \<le> e"
    using C [of 0 e] that by (simp add: range1_def is_int_def INT_MIN_def INT_MAX_def)
  have E: "range_for RangeIterator_ops (range1 5) = Some (Inr [0, 1, 2, 3, 4])"
    by code_simp
  have A': "range_for RangeIterator_ops (range2 b e) = range_for RangeIterator_ops (range3 b e 1)"
    by (simp only: A)
  have B': "range_for RangeIterator_ops (range1 e) = range_for RangeIterator_ops (range2 0 e)"
    by (simp only: B)
  have C': "is_int b \<and> is_int e \<and> b \<le> e \<and> is_int (e - b) \<longrightarrow>
      range_for RangeIterator_ops (range2 b e)
        = Some (Inr (map (\<lambda>j. b + int j) [0..<nat (e - b)]))"
    using C [of b e] by blast
  have D': "is_int e \<and> 0 \<le> e \<longrightarrow>
      range_for RangeIterator_ops (range1 e) = Some (Inr (map int [0..<nat e]))"
    using D by blast
  show ?thesis
    using A B A' B' C' D' E by (intro conjI)
qed

theorem range_defaults_witness:
  "is_int 3 \<and> is_int 6 \<and> (3::int) \<le> 6 \<and> is_int (6 - 3) \<and>
   range_for RangeIterator_ops (range2 3 6) = Some (Inr [3, 4, 5]) \<and>
   is_int 2 \<and> (0::int) \<le> 2 \<and>
   range_for RangeIterator_ops (range1 2) = Some (Inr [0, 1])"
proof -
  have h1: "is_int 3 \<and> is_int 6 \<and> (3::int) \<le> 6 \<and> is_int (6 - 3)"
    by (simp add: is_int_def INT_MIN_def INT_MAX_def)
  have h2: "is_int 2 \<and> (0::int) \<le> 2"
    by (simp add: is_int_def INT_MIN_def INT_MAX_def)
  note a = range_defaults [of 3 6, THEN conjunct2, THEN conjunct2, THEN conjunct2, THEN conjunct2,
      THEN conjunct1, THEN mp, OF h1]
  note b = range_defaults [of _ 2, THEN conjunct2, THEN conjunct2, THEN conjunct2, THEN conjunct2,
      THEN conjunct2, THEN conjunct1, THEN mp, OF h2]
  have m1: "map (\<lambda>j. 3 + int j) [0..<nat (6 - 3)] = [3, 4, 5]" by (simp add: upt_conv_Cons)
  have m2: "map int [0..<nat 2] = [0, 1]" by (simp add: upt_conv_Cons)
  show ?thesis using a b h1 h2 unfolding m1 m2 by simp
qed

subsection \<open>C10: what dereferencing leaves behind\<close>

text \<open>
  A cursor whose dereferencer writes through the reference it receives: the cursor holds
  5 before \<open>*\<close> and 6 after it.
\<close>

theorem dereference_writes_held_value:
  "current (CallbackIterator (Some 5) (increment_ByValue 1) dereference_PreIncrement
      compare_ByValue) = Some 5 \<and>
   Iterator_star (CallbackIterator (Some 5) (increment_ByValue 1) dereference_PreIncrement
      compare_ByValue)
     = (Inr 6, CallbackIterator (Some 6) (increment_ByValue 1) dereference_PreIncrement
          compare_ByValue) \<and>
   current (snd (Iterator_star (CallbackIterator (Some 5) (increment_ByValue 1)
      dereference_PreIncrement compare_ByValue))) = Some 6"
  by (simp add: Iterator_star_def Iterator_bool_def CallbackIterator_def
      dereference_PreIncrement_def int_add_def is_int_def INT_MIN_def INT_MAX_def)

text \<open>
  Claim C10, as the code has it: \<open>operator*\<close> itself assigns nothing. On a cursor without
  a held value it raises and leaves the cursor as it is. On every cursor the presence or
  absence of the held value is the same after the call as before. On a cursor with a held
  value the cursor afterwards differs at most in the held value, which is what the
  dereferencer left in it; so the cursor is unchanged, and a second attempt gives the
  same result, whenever the dereferencer does not write through its argument. The
  header's dereferencers do not: \<open>ByValue\<close> never, \<open>ByTupleDereference\<close> when the \<open>*\<close> of the
  sub-cursors does not, which holds for container iterators and arithmetic-progression
  cursors. Hence the cursors of \<open>range\<close>, of \<open>zip\<close> over such sub-cursors and of
  \<open>enumerate\<close> over a container are unchanged by \<open>*\<close>.
\<close>

theorem Iterator_star_frame:
  "(current it = None \<longrightarrow> Iterator_star it = (Inl UndefinedIteratorException, it)) \<and>
   Iterator_bool (snd (Iterator_star it)) = Iterator_bool it \<and>
   (\<forall>v. current it = Some v \<longrightarrow>
      snd (Iterator_star it) = it\<lparr>current := Some (snd (dereferencer it v))\<rparr>) \<and>
   (\<forall>v. current it = Some v \<and> snd (dereferencer it v) = v \<longrightarrow>
      snd (Iterator_star it) = it \<and>
      current (snd (Iterator_star it)) = current it \<and>
      Iterator_star (snd (Iterator_star it)) = Iterator_star it) \<and>
   snd (dereference_ByValue x) = x \<and>
   ((\<forall>c \<in> set cs. snd (star c) = c) \<longrightarrow> snd (dereference_ByTupleDereference star cs) = cs) \<and>
   snd (StdIterator_star si) = si \<and>
   snd (Iterator_star (RangeIterator a s)) = RangeIterator a s \<and>
   ((\<forall>c \<in> set cs. snd (op_star ops c) = c) \<longrightarrow>
      snd (Iterator_star (zip_cursor ops cs)) = zip_cursor ops cs) \<and>
   snd (Iterator_star (zip_cursor (sum_ops RangeIterator_ops StdIterator_ops)
          [Inl (RangeIterator a s), Inr si]))
     = zip_cursor (sum_ops RangeIterator_ops StdIterator_ops) [Inl (RangeIterator a s), Inr si]"
proof -
  have A: "current it = None \<longrightarrow> Iterator_star it = (Inl UndefinedIteratorException, it)"
    by (simp add: Iterator_star_def Iterator_bool_def)
  have B: "Iterator_bool (snd (Iterator_star it)) = Iterator_bool it"
    by (simp add: Iterator_star_def Iterator_bool_def split: prod.splits option.splits)
  have C: "\<forall>v. current it = Some v \<longrightarrow>
      snd (Iterator_star it) = it\<lparr>current := Some (snd (dereferencer it v))\<rparr>"
    by (simp add: Iterator_star_def Iterator_bool_def split: prod.splits)
  have D: "\<forall>v. current it = Some v \<and> snd (dereferencer it v) = v \<longrightarrow>
      snd (Iterator_star it) = it \<and>
      current (snd (Iterator_star it)) = current it \<and>
      Iterator_star (snd (Iterator_star it)) = Iterator_star it"
  proof (intro allI impI)
    fix v
    assume h: "current it = Some v \<and> snd (dereferencer it v) = v"
    then have "snd (Iterator_star it) = it\<lparr>current := current it\<rparr>"
      using C by simp
    then have "snd (Iterator_star it) = it" by simp
    then show "snd (Iterator_star it) = it \<and>
      current (snd (Iterator_star it)) = current it \<and>
      Iterator_star (snd (Iterator_star it)) = Iterator_star it"
      by simp
  qed
  have E: "snd (dereference_ByValue x) = x"
    by (simp add: dereference_ByValue_def)
  have F: "(\<forall>c \<in> set cs. snd (star c) = c) \<longrightarrow> snd (dereference_ByTupleDereference star cs) = cs"
    by (simp add: dereference_ByTupleDereference_def map_idI)
  have G: "snd (StdIterator_star si) = si"
    by (rule StdIterator_star_snd)
  have H: "snd (Iterator_star (RangeIterator a s)) = RangeIterator a s"
    by (simp add: RangeIterator_star)
  have I: "(\<forall>c \<in> set cs. snd (op_star ops c) = c) \<longrightarrow>
      snd (Iterator_star (zip_cursor ops cs)) = zip_cursor ops cs"
    by (simp add: zip_cursor_star map_snd_star_id)
  have J: "snd (Iterator_star (zip_cursor (sum_ops RangeIterator_ops StdIterator_ops)
          [Inl (RangeIterator a s), Inr si]))
     = zip_cursor (sum_ops RangeIterator_ops StdIterator_ops) [Inl (RangeIterator a s), Inr si]"
    using StdIterator_star_snd [of si]
    by (cases "StdIterator_star si")
      (simp add: zip_cursor_star sum_ops_sel RangeIterator_ops_sel StdIterator_ops_sel
        RangeIterator_star)
  show ?thesis
    using A B C D E F G H I J by (intro conjI)
qed

theorem Iterator_star_frame_witness:
  "current (CallbackIterator None (increment_ByValue 1) dereference_ByValue compare_ByValue
      :: (int, int) CallbackIterator) = None \<and>
   Iterator_star (CallbackIterator None (increment_ByValue 1) dereference_ByValue compare_ByValue
      :: (int, int) CallbackIterator)
     = (Inl UndefinedIteratorException,
        CallbackIterator None (increment_ByValue 1) dereference_ByValue compare_ByValue) \<and>
   current (RangeIterator 4 3) = Some 4 \<and>
   snd (dereferencer (RangeIterator 4 3) 4) = 4 \<and>
   snd (Iterator_star (RangeIterator 4 3)) = RangeIterator 4 3 \<and>
   Iterator_star (snd (Iterator_star (RangeIterator 4 3))) = Iterator_star (RangeIterator 4 3) \<and>
   snd (StdIterator_star (StdIterator [True] 0)) = StdIterator [True] 0 \<and>
   snd (dereference_ByTupleDereference StdIterator_star [StdIterator [True] 0])
     = [StdIterator [True] 0] \<and>
   snd (Iterator_star (zip_cursor StdIterator_ops [StdIterator [True] 0]))
     = zip_cursor StdIterator_ops [StdIterator [True] 0]"
proof -
  let ?x = "CallbackIterator None (increment_ByValue 1) dereference_ByValue compare_ByValue
      :: (int, int) CallbackIterator"
  have h1: "current ?x = None" by (simp add: CallbackIterator_def)
  have h2: "current (RangeIterator 4 3) = Some 4" by (simp add: RangeIterator_def)
  have h3: "snd (dereferencer (RangeIterator 4 3) 4) = 4"
    by (simp add: RangeIterator_def dereference_ByValue_def)
  have h4: "snd (StdIterator_star (StdIterator [True] 0)) = StdIterator [True] 0"
    by (simp add: StdIterator_star_def)
  have h5: "\<forall>c \<in> set [StdIterator [True] 0]. snd (StdIterator_star c) = c"
    using h4 by simp
  have h6: "\<forall>c \<in> set [StdIterator [True] 0]. snd (op_star StdIterator_ops c) = c"
    using h4 by (simp add: StdIterator_ops_sel)
  note a = Iterator_star_frame [where it = ?x, THEN conjunct1, THEN mp, OF h1]
  note d = Iterator_star_frame [where it = "RangeIterator 4 3", THEN conjunct2, THEN conjunct2,
      THEN conjunct2, THEN conjunct1, THEN spec, THEN mp, OF conjI, OF h2 h3]
  note f = Iterator_star_frame [where star = StdIterator_star and cs = "[StdIterator [True] 0]",
      THEN conjunct2, THEN conjunct2, THEN conjunct2, THEN conjunct2, THEN conjunct2,
      THEN conjunct1, THEN mp, OF h5]
  note i = Iterator_star_frame [where ops = StdIterator_ops and cs = "[StdIterator [True] 0]",
      THEN conjunct2, THEN conjunct2, THEN conjunct2, THEN conjunct2, THEN conjunct2,
      THEN conjunct2, THEN conjunct2, THEN conjunct2, THEN conjunct1, THEN mp, OF h6]
  show ?thesis
    using h1 a h2 h3 d h4 f i by blast
qed


end
